theory Spec2Isabelle
  imports Complex_Main "HOL-Library.AList"
begin

chapter \<open>The model\<close>

section \<open>Values shared by the payment core\<close>

text \<open>
  JavaScript strings are modelled as \<open>string\<close>, \<open>bigint\<close> as \<open>int\<close>, \<open>number\<close>
  durations as \<open>real\<close> (the tool schema admits no NaN) and \<open>Date\<close> values as
  milliseconds in \<open>nat\<close>. A string is truthy when it is not empty. Console logging is
  not part of the model.
\<close>

definition truthy :: "string \<Rightarrow> bool" where
  "truthy x = (x \<noteq> [])"

text \<open>\<open>id.startsWith("@") ? id.slice(1) : id\<close>\<close>

definition normalizeId :: "string \<Rightarrow> string" where
  "normalizeId unicityId = (if take 1 unicityId = ''@'' then drop 1 unicityId else unicityId)"

datatype failure =
    NotInitialized
  | CouldNotResolve string
  | RequestFailed string
  | AmountMismatch int int
  | PaymentFailed string
  | PaymentTimeout real string
  | ShuttingDown

section \<open>Alias resolution with bounded retry (NostrService.resolvePubkeyWithRetry)\<close>

text \<open>
  The relay is an environment: \<open>lookup n id\<close> is the answer of the \<open>n\<close>-th call of
  \<open>queryPubkeyByNametag\<close> (\<open>None\<close> for \<open>null\<close>). What the loop does to the outside world is
  returned as a list of effects, in order.
\<close>

datatype effect = Query string | Sleep nat

function retryLoop ::
  "(nat \<Rightarrow> string \<Rightarrow> string option) \<Rightarrow> string \<Rightarrow> nat \<Rightarrow> nat \<Rightarrow> string option \<times> effect list" where
  "retryLoop lookup cleanId maxRetries attempt =
     (if attempt \<le> maxRetries then
        (case (case lookup attempt cleanId of
                 Some pubkey \<Rightarrow> if truthy pubkey then Some pubkey else None
               | None \<Rightarrow> None) of
           Some pubkey \<Rightarrow> (Some pubkey, [Query cleanId])
         | None \<Rightarrow>
             (case retryLoop lookup cleanId maxRetries (Suc attempt) of
                (r, es) \<Rightarrow>
                  (r, Query cleanId #
                      (if attempt < maxRetries then [Sleep (1000 * 2 ^ (attempt - 1))] else []) @ es)))
      else (None, []))"
  by pat_completeness auto
termination
  by (relation "measure (\<lambda>(lookup, cleanId, maxRetries, attempt). Suc maxRetries - attempt)") auto

declare retryLoop.simps [simp del]

text \<open>\<open>clientPresent\<close> is \<open>this.client !== null\<close>; the default of \<open>maxRetries\<close> is 3.\<close>

definition resolvePubkeyWithRetry ::
  "bool \<Rightarrow> (nat \<Rightarrow> string \<Rightarrow> string option) \<Rightarrow> string \<Rightarrow> nat
     \<Rightarrow> failure + (string option \<times> effect list)" where
  "resolvePubkeyWithRetry clientPresent lookup unicityId maxRetries =
     (if \<not> clientPresent then Inl NotInitialized
      else Inr (retryLoop lookup (normalizeId unicityId) maxRetries 1))"

text \<open>The public entry point repeats the guard and uses the default of three attempts.\<close>

definition resolveUnicityId ::
  "bool \<Rightarrow> (nat \<Rightarrow> string \<Rightarrow> string option) \<Rightarrow> string
     \<Rightarrow> failure + (string option \<times> effect list)" where
  "resolveUnicityId clientPresent lookup unicityId =
     (if \<not> clientPresent then Inl NotInitialized
      else resolvePubkeyWithRetry clientPresent lookup unicityId 3)"

text \<open>An answer counts as not-found when it is \<open>null\<close> or falsy (\<open>if (pubkey)\<close>).\<close>

definition notFound :: "string option \<Rightarrow> bool" where
  "notFound r = (case r of Some pubkey \<Rightarrow> \<not> truthy pubkey | None \<Rightarrow> True)"

section \<open>The payment service (class NostrService)\<close>

record Config =
  nametag :: string
  paymentCoinId :: string
  paymentTimeoutSeconds :: int

text \<open>
  A \<open>PendingPaymentInternal\<close> carries the \<open>resolve\<close> and \<open>reject\<close> closures of the promise
  made by the \<open>waitForPayment\<close> call that built it. The model names that call by a number,
  \<open>pp_waiter\<close>, and keeps what the closures capture in a \<open>waiter\<close> record: the event id and
  the timeout read by the timer callback, the state of the timer, and the state of the
  promise (\<open>None\<close> while it is unsettled).
\<close>

record PendingPayment =
  pp_cartId :: string
  pp_eventId :: string
  pp_unicityId :: string
  pp_customerPubkey :: string
  pp_amountTokens :: int
  pp_createdAt :: nat
  pp_waiter :: nat

record ConfirmedPayment =
  cp_cartId :: string
  cp_requestEventId :: string
  cp_transferEventId :: string
  cp_confirmedAt :: nat

datatype settlement = Resolved ConfirmedPayment | Rejected failure

datatype timer_status = Armed | Fired | Cleared

record waiter =
  w_eventId :: string
  w_timeout :: real
  w_timer :: timer_status
  w_promise :: "settlement option"

text \<open>
  An inbound event with what the protocol helpers read from it, and the outcome of the two
  awaited steps that depend on its payload: \<open>ev_tokenJson\<close> is the result of
  \<open>parseTokenTransfer\<close> (\<open>Inl\<close> the message of a thrown error), \<open>ev_finalization\<close> the result
  of \<open>JSON.parse\<close> followed by \<open>processTokenTransfer\<close>.
\<close>

record transfer_event =
  ev_id :: string
  ev_isTokenTransfer :: bool
  ev_replyTo :: "string option"
  ev_sender :: string
  ev_amount :: "int option"
  ev_tokenJson :: "string + string"
  ev_finalization :: "string + bool"

datatype relay_call = Connect | Subscribe | Unsubscribe string | Disconnect

text \<open>
  The two \<open>Map\<close>s keep insertion order, so they are association lists. \<open>inflight\<close> holds the
  invocations of \<open>handleIncomingTransfer\<close> that are suspended at an \<open>await\<close>, each with the
  pending payment it has matched, \<open>connecting\<close> counts the invocations of \<open>initialize\<close> that
  are suspended at \<open>await this.client.connect\<close>, and \<open>relayCalls\<close> logs the calls made on
  the relay client. \<open>connected\<close> is what \<open>isConnected\<close> of the client answers.
\<close>

record NostrService =
  client :: bool
  connected :: bool
  config :: "Config option"
  identityService :: bool
  pendingPayments :: "(string \<times> PendingPayment) list"
  confirmedPayments :: "(string \<times> ConfirmedPayment) list"
  transferSubscriptionId :: "string option"
  isInitialized :: bool
  waiters :: "waiter list"
  inflight :: "(transfer_event \<times> PendingPayment) list"
  connecting :: nat
  relayCalls :: "relay_call list"

definition newService :: NostrService where
  "newService = \<lparr>client = False, connected = False, config = None, identityService = False,
     pendingPayments = [], confirmedPayments = [], transferSubscriptionId = None,
     isInitialized = False, waiters = [], inflight = [], connecting = 0, relayCalls = []\<rparr>"

text \<open>
  \<open>subscribeToTokenTransfers\<close>; \<open>subscriptionId\<close> is what \<open>client.subscribe\<close> returns. It
  runs in \<open>initialize\<close> and again whenever the relay reconnects.
\<close>

definition subscribeToTokenTransfers :: "NostrService \<Rightarrow> string \<Rightarrow> NostrService" where
  "subscribeToTokenTransfers s subscriptionId =
     (if \<not> client s \<or> \<not> identityService s then s
      else s\<lparr>relayCalls := relayCalls s @ [Subscribe],
             transferSubscriptionId := Some subscriptionId\<rparr>)"

text \<open>
  \<open>initialize\<close> is an \<open>async\<close> method: it sets the configuration, the identity service and a
  new client, calls \<open>connect\<close> and awaits it. \<open>initializeResumes\<close> is what a suspended
  invocation does when that promise is settled; \<open>connects\<close> tells whether \<open>connect\<close> succeeded.
  A rejected \<open>connect\<close> ends the invocation with the exception and leaves what was set.
\<close>

definition initialize :: "NostrService \<Rightarrow> Config \<Rightarrow> NostrService" where
  "initialize s cfg =
     (if isInitialized s then s
      else s\<lparr>config := Some cfg, identityService := True, client := True,
             relayCalls := relayCalls s @ [Connect], connecting := Suc (connecting s)\<rparr>)"

definition initializeResumes ::
  "NostrService \<Rightarrow> bool \<Rightarrow> string \<Rightarrow> failure option \<times> NostrService" where
  "initializeResumes s connects subscriptionId =
     (if connecting s = 0 then (None, s)
      else
        let s1 = s\<lparr>connecting := connecting s - 1\<rparr>
        in if \<not> connects then (Some (RequestFailed ''connect''), s1)
           else (None, (subscribeToTokenTransfers (s1\<lparr>connected := True\<rparr>) subscriptionId)
                         \<lparr>isInitialized := True\<rparr>))"

definition isConnected :: "NostrService \<Rightarrow> bool" where
  "isConnected s = (isInitialized s \<and> client s \<and> connected s)"

subsection \<open>Promises and timers\<close>

text \<open>A promise keeps its first settlement; later calls of its closures change nothing.\<close>

definition settle :: "NostrService \<Rightarrow> nat \<Rightarrow> settlement \<Rightarrow> NostrService" where
  "settle s w out =
     (if w < length (waiters s) then
        (case w_promise (waiters s ! w) of
           None \<Rightarrow> s\<lparr>waiters := (waiters s)[w := (waiters s ! w)\<lparr>w_promise := Some out\<rparr>]\<rparr>
         | Some earlier \<Rightarrow> s)
      else s)"

definition clearTimeout :: "NostrService \<Rightarrow> nat \<Rightarrow> NostrService" where
  "clearTimeout s w =
     (if w < length (waiters s) \<and> w_timer (waiters s ! w) = Armed
      then s\<lparr>waiters := (waiters s)[w := (waiters s ! w)\<lparr>w_timer := Cleared\<rparr>]\<rparr>
      else s)"

text \<open>\<open>pendingPayment.resolve\<close> is the wrapper that clears the timer first.\<close>

definition resolveWaiter :: "NostrService \<Rightarrow> nat \<Rightarrow> ConfirmedPayment \<Rightarrow> NostrService" where
  "resolveWaiter s w payment = settle (clearTimeout s w) w (Resolved payment)"

definition rejectWaiter :: "NostrService \<Rightarrow> nat \<Rightarrow> failure \<Rightarrow> NostrService" where
  "rejectWaiter s w err = settle s w (Rejected err)"

definition promiseOf :: "NostrService \<Rightarrow> nat \<Rightarrow> settlement option" where
  "promiseOf s w = (if w < length (waiters s) then w_promise (waiters s ! w) else None)"

subsection \<open>waitForPayment\<close>

datatype wait_result = WaitThrew failure | WaitReturned ConfirmedPayment | WaitPending nat

definition waitForPayment ::
  "NostrService \<Rightarrow> nat \<Rightarrow> string \<Rightarrow> string \<Rightarrow> string \<Rightarrow> string \<Rightarrow> int \<Rightarrow> real option
     \<Rightarrow> wait_result \<times> NostrService" where
  "waitForPayment s now cartId eventId unicityId customerPubkey amountTokens timeoutMs =
     (case config s of
        None \<Rightarrow> (WaitThrew NotInitialized, s)
      | Some cfg \<Rightarrow>
          let timeout = (case timeoutMs of
                           Some t \<Rightarrow> t
                         | None \<Rightarrow> of_int (paymentTimeoutSeconds cfg) * 1000)
          in (case map_of (confirmedPayments s) cartId of
                Some existing \<Rightarrow> (WaitReturned existing, s)
              | None \<Rightarrow>
                  let w = length (waiters s);
                      pendingPayment =
                        \<lparr>pp_cartId = cartId, pp_eventId = eventId,
                         pp_unicityId = normalizeId unicityId,
                         pp_customerPubkey = customerPubkey, pp_amountTokens = amountTokens,
                         pp_createdAt = now, pp_waiter = w\<rparr>
                  in (WaitPending w,
                      s\<lparr>pendingPayments :=
                          AList.update eventId pendingPayment (pendingPayments s),
                        waiters := waiters s @
                          [\<lparr>w_eventId = eventId, w_timeout = timeout, w_timer = Armed,
                            w_promise = None\<rparr>]\<rparr>)))"

text \<open>The callback given to \<open>setTimeout\<close>; it runs at most once, and not after \<open>clearTimeout\<close>.\<close>

definition timeoutFires :: "NostrService \<Rightarrow> nat \<Rightarrow> NostrService" where
  "timeoutFires s w =
     (if w < length (waiters s) \<and> w_timer (waiters s ! w) = Armed then
        let eventId = w_eventId (waiters s ! w);
            s1 = s\<lparr>waiters := (waiters s)[w := (waiters s ! w)\<lparr>w_timer := Fired\<rparr>]\<rparr>
        in if map_of (pendingPayments s1) eventId \<noteq> None
           then rejectWaiter
                  (s1\<lparr>pendingPayments := AList.delete eventId (pendingPayments s1)\<rparr>) w
                  (PaymentTimeout (w_timeout (waiters s ! w)) eventId)
           else s1
      else s)"

subsection \<open>handleIncomingTransfer\<close>

text \<open>
  The handler is an \<open>async\<close> function. It matches the event to an entry of the index, then
  awaits \<open>parseTokenTransfer\<close> and \<open>processTokenTransfer\<close>, and only then checks the amount
  and confirms or rejects; when an awaited call throws, the \<open>catch\<close> block runs instead. An
  invocation that gets past the first awaited call touches nothing of the service before the
  second, and what \<open>processTokenTransfer\<close> reads of the service goes into its result flag
  only, which the handler logs. So an invocation is two pieces of code that each run without
  interruption: \<open>transferArrives\<close>, up to the first \<open>await\<close>, and \<open>transferResumes\<close>, the
  last piece, from the \<open>await\<close> after which the handler writes. Timer callbacks, \<open>shutdown\<close>,
  calls of \<open>waitForPayment\<close> and other invocations of the handler may run between the two.
\<close>

definition replyToEventId :: "transfer_event \<Rightarrow> string option" where
  "replyToEventId ev =
     (case ev_replyTo ev of Some r \<Rightarrow> if truthy r then Some r else None | None \<Rightarrow> None)"

text \<open>Matching: the reply-to reference first, then the first entry of the same sender.\<close>

definition findPending :: "NostrService \<Rightarrow> transfer_event \<Rightarrow> PendingPayment option" where
  "findPending s ev =
     (case (case replyToEventId ev of
              Some r \<Rightarrow> map_of (pendingPayments s) r
            | None \<Rightarrow> None) of
        Some pendingPayment \<Rightarrow> Some pendingPayment
      | None \<Rightarrow>
          find (\<lambda>pending. pp_customerPubkey pending = ev_sender ev)
               (map snd (pendingPayments s)))"

text \<open>The \<open>catch\<close> block: only a transfer that named the request fails the payment.\<close>

definition transferFailed ::
  "NostrService \<Rightarrow> transfer_event \<Rightarrow> PendingPayment \<Rightarrow> string \<Rightarrow> NostrService" where
  "transferFailed s ev pendingPayment errorMessage =
     (if replyToEventId ev \<noteq> None
      then rejectWaiter
             (s\<lparr>pendingPayments :=
                  AList.delete (pp_eventId pendingPayment) (pendingPayments s)\<rparr>)
             (pp_waiter pendingPayment) (PaymentFailed errorMessage)
      else s)"

text \<open>The confirmation at the end of the handler.\<close>

definition confirmTransfer ::
  "NostrService \<Rightarrow> nat \<Rightarrow> transfer_event \<Rightarrow> PendingPayment \<Rightarrow> NostrService" where
  "confirmTransfer s now ev pendingPayment =
     (let confirmed =
            \<lparr>cp_cartId = pp_cartId pendingPayment,
             cp_requestEventId = pp_eventId pendingPayment,
             cp_transferEventId = ev_id ev, cp_confirmedAt = now\<rparr>
      in resolveWaiter
           (s\<lparr>confirmedPayments :=
                AList.update (pp_cartId pendingPayment) confirmed (confirmedPayments s),
              pendingPayments :=
                AList.delete (pp_eventId pendingPayment) (pendingPayments s)\<rparr>)
           (pp_waiter pendingPayment) confirmed)"

text \<open>
  The part of the handler after its last \<open>await\<close>: the checks on the parsed payload, the
  amount check, and the confirmation. A failed finalization (\<open>Inr False\<close>) is only logged.
\<close>

definition transferFinish ::
  "NostrService \<Rightarrow> nat \<Rightarrow> transfer_event \<Rightarrow> PendingPayment \<Rightarrow> NostrService" where
  "transferFinish s now ev pendingPayment =
     (case ev_tokenJson ev of
        Inl thrown \<Rightarrow> transferFailed s ev pendingPayment thrown
      | Inr tokenJson \<Rightarrow>
          if \<not> truthy tokenJson then transferFailed s ev pendingPayment ''Empty token data''
          else
            (case ev_finalization ev of
               Inl thrown \<Rightarrow> transferFailed s ev pendingPayment thrown
             | Inr finalizationSuccess \<Rightarrow>
                 (case ev_amount ev of
                    None \<Rightarrow> confirmTransfer s now ev pendingPayment
                  | Some transferAmount \<Rightarrow>
                      if transferAmount \<noteq> pp_amountTokens pendingPayment
                      then rejectWaiter
                             (s\<lparr>pendingPayments :=
                                  AList.delete (pp_eventId pendingPayment)
                                    (pendingPayments s)\<rparr>)
                             (pp_waiter pendingPayment)
                             (AmountMismatch transferAmount (pp_amountTokens pendingPayment))
                      else confirmTransfer s now ev pendingPayment)))"

text \<open>
  The part of the handler before its first \<open>await\<close>: an event that is no token transfer or
  matches nothing is dropped; a matched one suspends with its match.
\<close>

definition transferArrives :: "NostrService \<Rightarrow> transfer_event \<Rightarrow> NostrService" where
  "transferArrives s ev =
     (if \<not> ev_isTokenTransfer ev then s
      else
        (case findPending s ev of
           None \<Rightarrow> s
         | Some pendingPayment \<Rightarrow>
             if \<not> identityService s
             then transferFailed s ev pendingPayment ''IdentityService not initialized''
             else s\<lparr>inflight := inflight s @ [(ev, pendingPayment)]\<rparr>))"

text \<open>The \<open>i\<close>-th suspended invocation runs to its end.\<close>

definition transferResumes :: "NostrService \<Rightarrow> nat \<Rightarrow> nat \<Rightarrow> NostrService" where
  "transferResumes s now i =
     (if i < length (inflight s)
      then transferFinish (s\<lparr>inflight := take i (inflight s) @ drop (Suc i) (inflight s)\<rparr>)
             now (fst (inflight s ! i)) (snd (inflight s ! i))
      else s)"

subsection \<open>Queries and shutdown\<close>

definition getConfirmedPayment :: "NostrService \<Rightarrow> string \<Rightarrow> ConfirmedPayment option" where
  "getConfirmedPayment s cartId = map_of (confirmedPayments s) cartId"

definition getPendingPaymentByCartId :: "NostrService \<Rightarrow> string \<Rightarrow> PendingPayment option" where
  "getPendingPaymentByCartId s cartId =
     find (\<lambda>pending. pp_cartId pending = cartId) (map snd (pendingPayments s))"

definition getPendingPaymentByEventId :: "NostrService \<Rightarrow> string \<Rightarrow> PendingPayment option" where
  "getPendingPaymentByEventId s eventId = map_of (pendingPayments s) eventId"

definition rejectAll :: "NostrService \<Rightarrow> PendingPayment list \<Rightarrow> NostrService" where
  "rejectAll s ps = fold (\<lambda>pending st. rejectWaiter st (pp_waiter pending) ShuttingDown) ps s"

definition unsubscribeTransfers :: "NostrService \<Rightarrow> NostrService" where
  "unsubscribeTransfers s =
     (case transferSubscriptionId s of
        Some sid \<Rightarrow>
          if truthy sid
          then s\<lparr>relayCalls := relayCalls s @ [Unsubscribe sid], transferSubscriptionId := None\<rparr>
          else s
      | None \<Rightarrow> s)"

definition shutdown :: "NostrService \<Rightarrow> NostrService" where
  "shutdown s =
     (let s1 =
        (if client s then
           let s2 = unsubscribeTransfers s;
               s3 = rejectAll s2 (map snd (pendingPayments s2))
           in s3\<lparr>pendingPayments := [], relayCalls := relayCalls s3 @ [Disconnect],
                 client := False\<rparr>
         else s)
      in s1\<lparr>identityService := False, config := None, isInitialized := False\<rparr>)"

subsection \<open>Runs of the service\<close>

text \<open>
  Each action is one piece of code that runs without interruption on the event loop: a call
  of \<open>waitForPayment\<close>, a timer callback, the two pieces of the transfer handler, the two
  pieces of \<open>initialize\<close>, \<open>shutdown\<close>, and the listener of a reconnection.
\<close>

datatype action =
    Wait nat string string string string int "real option"
  | TimerFires nat
  | TransferArrives transfer_event
  | TransferResumes nat nat
  | Shutdown
  | Initialize Config
  | ConnectSettles bool string
  | Reconnected string

fun step :: "NostrService \<Rightarrow> action \<Rightarrow> NostrService" where
  "step s (Wait now cartId eventId unicityId customerPubkey amountTokens timeoutMs) =
     snd (waitForPayment s now cartId eventId unicityId customerPubkey amountTokens timeoutMs)"
| "step s (TimerFires w) = timeoutFires s w"
| "step s (TransferArrives ev) = transferArrives s ev"
| "step s (TransferResumes now i) = transferResumes s now i"
| "step s Shutdown = shutdown s"
| "step s (Initialize cfg) = initialize s cfg"
| "step s (ConnectSettles connects sid) = snd (initializeResumes s connects sid)"
| "step s (Reconnected sid) = subscribeToTokenTransfers s sid"

definition run :: "NostrService \<Rightarrow> action list \<Rightarrow> NostrService" where
  "run s acts = foldl step s acts"

subsection \<open>sendPaymentRequest\<close>

record PaymentRequestResult =
  pr_eventId :: string
  pr_amountTokens :: int
  pr_recipientNametag :: string
  pr_coinId :: string
  pr_customerPubkey :: string

text \<open>
  \<open>issue\<close> is the outcome of \<open>client.sendPaymentRequest\<close>: the event id, or \<open>Inl\<close> the
  message of what it threw. The method registers nothing in the service.
\<close>

definition sendPaymentRequest ::
  "NostrService \<Rightarrow> (nat \<Rightarrow> string \<Rightarrow> string option) \<Rightarrow> string + string \<Rightarrow> string \<Rightarrow> string
     \<Rightarrow> int \<Rightarrow> failure + PaymentRequestResult" where
  "sendPaymentRequest s lookup issue cartId unicityId amountTokens =
     (case config s of
        None \<Rightarrow> Inl NotInitialized
      | Some cfg \<Rightarrow>
          if \<not> client s \<or> \<not> identityService s then Inl NotInitialized
          else
            (case resolvePubkeyWithRetry (client s) lookup (normalizeId unicityId) 3 of
               Inl err \<Rightarrow> Inl err
             | Inr (None, effects) \<Rightarrow> Inl (CouldNotResolve (normalizeId unicityId))
             | Inr (Some customerPubkey, effects) \<Rightarrow>
                 if \<not> truthy customerPubkey then Inl (CouldNotResolve (normalizeId unicityId))
                 else
                   (case issue of
                      Inl thrown \<Rightarrow> Inl (RequestFailed thrown)
                    | Inr eventId \<Rightarrow>
                        Inr \<lparr>pr_eventId = eventId, pr_amountTokens = amountTokens,
                             pr_recipientNametag = nametag cfg, pr_coinId = paymentCoinId cfg,
                             pr_customerPubkey = customerPubkey\<rparr>)))"

section \<open>The order tracker (payment-tracker.ts)\<close>

datatype OrderStatus = Pending | AwaitingPayment | Paid | Cancelled | PaymentTimedOut

record Order =
  o_id :: string
  o_cartId :: string
  o_status :: OrderStatus
  o_totalAmountCents :: int
  o_currency :: string
  o_paymentEventId :: "string option"
  o_unicityId :: "string option"
  o_createdAt :: nat
  o_updatedAt :: nat
  o_paidAt :: "nat option"

type_synonym orders = "(string \<times> Order) list"

text \<open>\<open>uuid\<close> is what \<open>randomUUID\<close> returns, \<open>now\<close> what the clock reads.\<close>

definition trackOrder ::
  "orders \<Rightarrow> string \<Rightarrow> nat \<Rightarrow> string \<Rightarrow> int \<Rightarrow> string \<Rightarrow> Order \<times> orders" where
  "trackOrder os uuid now cartId totalAmountCents currency =
     (let order = \<lparr>o_id = uuid, o_cartId = cartId, o_status = Pending,
                    o_totalAmountCents = totalAmountCents, o_currency = currency,
                    o_paymentEventId = None, o_unicityId = None,
                    o_createdAt = now, o_updatedAt = now, o_paidAt = None\<rparr>
      in (order, AList.update cartId order os))"

definition getOrderByCartId :: "orders \<Rightarrow> string \<Rightarrow> Order option" where
  "getOrderByCartId os cartId = map_of os cartId"

text \<open>The clock is read once for \<open>updatedAt\<close> and once more for \<open>paidAt\<close>.\<close>

definition updateOrderStatus ::
  "orders \<Rightarrow> nat \<Rightarrow> nat \<Rightarrow> string \<Rightarrow> OrderStatus \<Rightarrow> Order option \<times> orders" where
  "updateOrderStatus os now paidNow cartId status =
     (case map_of os cartId of
        None \<Rightarrow> (None, os)
      | Some order \<Rightarrow>
          let order1 = order\<lparr>o_status := status, o_updatedAt := now\<rparr>;
              order2 = (if status = Paid then order1\<lparr>o_paidAt := Some paidNow\<rparr> else order1)
          in (Some order2, AList.update cartId order2 os))"

definition markAwaitingPayment ::
  "orders \<Rightarrow> nat \<Rightarrow> string \<Rightarrow> string \<Rightarrow> string \<Rightarrow> Order option \<times> orders" where
  "markAwaitingPayment os now cartId eventId unicityId =
     (case map_of os cartId of
        None \<Rightarrow> (None, os)
      | Some order \<Rightarrow>
          let order1 = order\<lparr>o_status := AwaitingPayment, o_paymentEventId := Some eventId,
                             o_unicityId := Some unicityId, o_updatedAt := now\<rparr>
          in (Some order1, AList.update cartId order1 os))"

definition markPaid :: "orders \<Rightarrow> nat \<Rightarrow> nat \<Rightarrow> string \<Rightarrow> Order option \<times> orders" where
  "markPaid os now paidNow cartId = updateOrderStatus os now paidNow cartId Paid"

definition markCancelled :: "orders \<Rightarrow> nat \<Rightarrow> nat \<Rightarrow> string \<Rightarrow> Order option \<times> orders" where
  "markCancelled os now paidNow cartId = updateOrderStatus os now paidNow cartId Cancelled"

definition markPaymentTimeout :: "orders \<Rightarrow> nat \<Rightarrow> nat \<Rightarrow> string \<Rightarrow> Order option \<times> orders" where
  "markPaymentTimeout os now paidNow cartId = updateOrderStatus os now paidNow cartId PaymentTimedOut"

text \<open>The states the tracker itself calls terminal (\<open>pruneOldOrders\<close>).\<close>

definition terminalStatus :: "OrderStatus \<Rightarrow> bool" where
  "terminalStatus status = (status = Paid \<or> status = Cancelled \<or> status = PaymentTimedOut)"

section \<open>The cart store (cart.ts)\<close>

record CartLine =
  cl_id :: string
  cl_variantId :: string
  cl_variantTitle :: string
  cl_productTitle :: string
  cl_productHandle :: string
  cl_quantity :: int
  cl_unitPriceCents :: int
  cl_lineTotalCents :: int
  cl_currency :: string

record Cart =
  c_id :: string
  c_lines :: "CartLine list"
  c_subtotalCents :: int
  c_currency :: string
  c_createdAt :: nat
  c_updatedAt :: nat
  c_lockedForCheckout :: "bool option"

type_synonym carts = "(string \<times> Cart) list"

definition getCart :: "carts \<Rightarrow> string \<Rightarrow> Cart option" where
  "getCart cs cartId = map_of cs cartId"

definition lockCartForCheckout :: "carts \<Rightarrow> nat \<Rightarrow> string \<Rightarrow> bool \<times> carts" where
  "lockCartForCheckout cs now cartId =
     (case map_of cs cartId of
        None \<Rightarrow> (False, cs)
      | Some cart \<Rightarrow>
          (True, AList.update cartId
                   (cart\<lparr>c_lockedForCheckout := Some True, c_updatedAt := now\<rparr>) cs))"

definition unlockCart :: "carts \<Rightarrow> nat \<Rightarrow> string \<Rightarrow> bool \<times> carts" where
  "unlockCart cs now cartId =
     (case map_of cs cartId of
        None \<Rightarrow> (False, cs)
      | Some cart \<Rightarrow>
          (True, AList.update cartId
                   (cart\<lparr>c_lockedForCheckout := Some False, c_updatedAt := now\<rparr>) cs))"

definition isCartLocked :: "carts \<Rightarrow> string \<Rightarrow> bool" where
  "isCartLocked cs cartId =
     (case map_of cs cartId of
        None \<Rightarrow> False
      | Some cart \<Rightarrow> (case c_lockedForCheckout cart of Some locked \<Rightarrow> locked | None \<Rightarrow> False))"

section \<open>The payment tools (tools/payment.ts)\<close>

text \<open>
  The module state of the tool layer: the set of carts being checked out, the two stores
  and the service singleton.
\<close>

record shop =
  checkoutLocks :: "string set"
  cartStore :: carts
  orderStore :: orders
  nostrService :: NostrService

record Variant =
  v_availableForSale :: bool
  v_quantityAvailable :: "int option"

text \<open>
  What one invocation of \<open>checkout_with_unicity\<close> meets outside the process:
  \<open>env_getVariant\<close> is the storefront (\<open>Inl\<close> when \<open>getVariantById\<close> throws),
  \<open>env_lookup\<close> and \<open>env_issue\<close> are the relay, and the rest are the values drawn from \<open>randomUUID\<close> and the clock.
\<close>

record checkout_env =
  env_getVariant :: "string \<Rightarrow> string + Variant option"
  env_lookup :: "nat \<Rightarrow> string \<Rightarrow> string option"
  env_issue :: "string + string"
  env_orderUuid :: string
  env_orderTime :: nat
  env_awaitingTime :: nat
  env_lockTime :: nat

datatype inventory_issue =
    NoLongerExists string string
  | OutOfStock string string
  | OnlyAvailable string string int int

datatype checkout_response =
    CheckoutInProgress
  | CartNotFound
  | CartEmpty
  | InventoryIssues "inventory_issue list"
  | AlreadyPaid string
  | AlreadyPending "string option"
  | ServiceNotConnected
  | SendFailed failure
  | CheckoutError string
  | RequestSent PaymentRequestResult

fun checkoutIsError :: "checkout_response \<Rightarrow> bool" where
  "checkoutIsError (RequestSent r) = False"
| "checkoutIsError other = True"

text \<open>The inventory loop; a throwing storefront call ends it with the exception.\<close>

fun checkInventory ::
  "(string \<Rightarrow> string + Variant option) \<Rightarrow> CartLine list \<Rightarrow> string + inventory_issue list" where
  "checkInventory gv [] = Inr []"
| "checkInventory gv (line # rest) =
     (case gv (cl_variantId line) of
        Inl thrown \<Rightarrow> Inl thrown
      | Inr variant \<Rightarrow>
          (case checkInventory gv rest of
             Inl thrown \<Rightarrow> Inl thrown
           | Inr errors \<Rightarrow>
               (case variant of
                  None \<Rightarrow>
                    Inr (NoLongerExists (cl_productTitle line) (cl_variantTitle line) # errors)
                | Some v \<Rightarrow>
                    if \<not> v_availableForSale v
                    then Inr (OutOfStock (cl_productTitle line) (cl_variantTitle line) # errors)
                    else
                      (case v_quantityAvailable v of
                         None \<Rightarrow> Inr errors
                       | Some available \<Rightarrow>
                           if cl_quantity line > available
                           then Inr (OnlyAvailable (cl_productTitle line) (cl_variantTitle line)
                                       available (cl_quantity line) # errors)
                           else Inr errors))))"

text \<open>
  The guard on an order that already exists for the cart: only \<open>paid\<close> and
  \<open>awaiting_payment\<close> stop the checkout.
\<close>

definition existingOrderGuard :: "orders \<Rightarrow> string \<Rightarrow> checkout_response option" where
  "existingOrderGuard os cartId =
     (case getOrderByCartId os cartId of
        None \<Rightarrow> None
      | Some existingOrder \<Rightarrow>
          if o_status existingOrder = Paid then Some (AlreadyPaid (o_id existingOrder))
          else if o_status existingOrder = AwaitingPayment
          then Some (AlreadyPending (o_paymentEventId existingOrder))
          else None)"

text \<open>The three writes after the request went out.\<close>

definition recordCheckout ::
  "shop \<Rightarrow> checkout_env \<Rightarrow> string \<Rightarrow> string \<Rightarrow> Cart \<Rightarrow> PaymentRequestResult \<Rightarrow> shop" where
  "recordCheckout st env cartId unicityId cart paymentRequest =
     (let os1 = snd (trackOrder (orderStore st) (env_orderUuid env) (env_orderTime env) cartId
                       (c_subtotalCents cart) (c_currency cart));
          os2 = snd (markAwaitingPayment os1 (env_awaitingTime env) cartId
                       (pr_eventId paymentRequest) unicityId);
          cs1 = snd (lockCartForCheckout (cartStore st) (env_lockTime env) cartId)
      in st\<lparr>orderStore := os2, cartStore := cs1\<rparr>)"

text \<open>
  The body of the \<open>try\<close> block in one piece, as it runs when nothing else runs during its
  awaits: the response, and the shop when the body is left.
\<close>

definition checkoutBody ::
  "shop \<Rightarrow> checkout_env \<Rightarrow> string \<Rightarrow> string \<Rightarrow> checkout_response \<times> shop" where
  "checkoutBody st env cartId unicityId =
     (case getCart (cartStore st) cartId of
        None \<Rightarrow> (CartNotFound, st)
      | Some cart \<Rightarrow>
          if c_lines cart = [] then (CartEmpty, st)
          else
            (case checkInventory (env_getVariant env) (c_lines cart) of
               Inl thrown \<Rightarrow> (CheckoutError thrown, st)
             | Inr inventoryErrors \<Rightarrow>
                 if inventoryErrors \<noteq> [] then (InventoryIssues inventoryErrors, st)
                 else
                   (case existingOrderGuard (orderStore st) cartId of
                      Some response \<Rightarrow> (response, st)
                    | None \<Rightarrow>
                        if \<not> isConnected (nostrService st) then (ServiceNotConnected, st)
                        else
                          (case sendPaymentRequest (nostrService st) (env_lookup env) (env_issue env)
                                  cartId unicityId (c_subtotalCents cart) of
                             Inl err \<Rightarrow> (SendFailed err, st)
                           | Inr paymentRequest \<Rightarrow>
                               (RequestSent paymentRequest,
                                recordCheckout st env cartId unicityId cart paymentRequest)))))"

text \<open>The two exported helpers of the lock set; the second is there for the tests.\<close>

definition isCheckoutInProgress :: "shop \<Rightarrow> string \<Rightarrow> bool" where
  "isCheckoutInProgress st cartId = (cartId \<in> checkoutLocks st)"

definition clearCheckoutLocks :: "shop \<Rightarrow> shop" where
  "clearCheckoutLocks st = st\<lparr>checkoutLocks := {}\<rparr>"

text \<open>The lock of the handler: the check and the \<open>add\<close> on entry, the \<open>delete\<close> in \<open>finally\<close>.\<close>

definition checkoutAcquire :: "shop \<Rightarrow> string \<Rightarrow> shop option" where
  "checkoutAcquire st cartId =
     (if cartId \<in> checkoutLocks st then None
      else Some (st\<lparr>checkoutLocks := insert cartId (checkoutLocks st)\<rparr>))"

definition checkoutRelease :: "shop \<Rightarrow> string \<Rightarrow> shop" where
  "checkoutRelease st cartId = st\<lparr>checkoutLocks := checkoutLocks st - {cartId}\<rparr>"

subsection \<open>checkout_with_unicity on the event loop\<close>

text \<open>
  The tool handler is an \<open>async\<close> function too: it runs up to an \<open>await\<close>, gives way to
  whatever else the process has to run, and goes on when the awaited promise is settled. It
  awaits \<open>getVariantById\<close> once for every line of the cart and \<open>sendPaymentRequest\<close> once.
  A suspended invocation keeps its two arguments and the cart it has read; inside the
  inventory loop it also keeps the line whose variant it awaits, the lines still to come and
  the issues found so far.
\<close>

datatype checkout_task =
    AwaitingVariant string string Cart CartLine "CartLine list" "inventory_issue list"
  | AwaitingRequest string string Cart

fun taskCartId :: "checkout_task \<Rightarrow> string" where
  "taskCartId (AwaitingVariant cartId unicityId cart line rest inventoryErrors) = cartId"
| "taskCartId (AwaitingRequest cartId unicityId cart) = cartId"

datatype checkout_progress = Returned checkout_response | Suspended checkout_task

text \<open>
  What an awaited promise delivers: the variant (\<open>null\<close> is \<open>None\<close>) or the payment request,
  or \<open>Inl\<close> what was thrown.
\<close>

datatype awaited =
    VariantAnswer "string + Variant option"
  | RequestAnswer "failure + PaymentRequestResult"

text \<open>The body of the inventory loop for one line: at most one issue.\<close>

definition inventoryIssue :: "CartLine \<Rightarrow> Variant option \<Rightarrow> inventory_issue list" where
  "inventoryIssue line variant =
     (case variant of
        None \<Rightarrow> [NoLongerExists (cl_productTitle line) (cl_variantTitle line)]
      | Some v \<Rightarrow>
          if \<not> v_availableForSale v
          then [OutOfStock (cl_productTitle line) (cl_variantTitle line)]
          else
            (case v_quantityAvailable v of
               None \<Rightarrow> []
             | Some available \<Rightarrow>
                 if cl_quantity line > available
                 then [OnlyAvailable (cl_productTitle line) (cl_variantTitle line)
                         available (cl_quantity line)]
                 else []))"

text \<open>Every \<open>return\<close> inside the \<open>try\<close> block, and its \<open>catch\<close>, leave through \<open>finally\<close>.\<close>

definition checkoutReturn ::
  "shop \<Rightarrow> string \<Rightarrow> checkout_response \<Rightarrow> checkout_progress \<times> shop" where
  "checkoutReturn st cartId response = (Returned response, checkoutRelease st cartId)"

text \<open>From the end of the inventory loop to the call of \<open>sendPaymentRequest\<close>.\<close>

definition checkoutAfterInventory ::
  "shop \<Rightarrow> string \<Rightarrow> string \<Rightarrow> Cart \<Rightarrow> inventory_issue list \<Rightarrow> checkout_progress \<times> shop" where
  "checkoutAfterInventory st cartId unicityId cart inventoryErrors =
     (if inventoryErrors \<noteq> [] then checkoutReturn st cartId (InventoryIssues inventoryErrors)
      else
        (case existingOrderGuard (orderStore st) cartId of
           Some response \<Rightarrow> checkoutReturn st cartId response
         | None \<Rightarrow>
             if \<not> isConnected (nostrService st)
             then checkoutReturn st cartId ServiceNotConnected
             else (Suspended (AwaitingRequest cartId unicityId cart), st)))"

text \<open>The head of the inventory loop: the next line is awaited, or the loop is over.\<close>

definition checkoutInventory ::
  "shop \<Rightarrow> string \<Rightarrow> string \<Rightarrow> Cart \<Rightarrow> CartLine list \<Rightarrow> inventory_issue list
     \<Rightarrow> checkout_progress \<times> shop" where
  "checkoutInventory st cartId unicityId cart lines inventoryErrors =
     (case lines of
        [] \<Rightarrow> checkoutAfterInventory st cartId unicityId cart inventoryErrors
      | line # rest \<Rightarrow>
          (Suspended (AwaitingVariant cartId unicityId cart line rest inventoryErrors), st))"

text \<open>From the call of the handler to its first \<open>await\<close>, or to its \<open>return\<close> if that is earlier.\<close>

definition checkoutEnter :: "shop \<Rightarrow> string \<Rightarrow> string \<Rightarrow> checkout_progress \<times> shop" where
  "checkoutEnter st cartId unicityId =
     (case checkoutAcquire st cartId of
        None \<Rightarrow> (Returned CheckoutInProgress, st)
      | Some locked \<Rightarrow>
          (case getCart (cartStore locked) cartId of
             None \<Rightarrow> checkoutReturn locked cartId CartNotFound
           | Some cart \<Rightarrow>
               if c_lines cart = [] then checkoutReturn locked cartId CartEmpty
               else checkoutInventory locked cartId unicityId cart (c_lines cart) []))"

text \<open>
  From the settling of the awaited promise to the next \<open>await\<close> or to the \<open>return\<close>. An answer
  of the other kind is not the one the invocation awaits; it stays suspended.
\<close>

fun checkoutResume ::
  "shop \<Rightarrow> checkout_env \<Rightarrow> checkout_task \<Rightarrow> awaited \<Rightarrow> checkout_progress \<times> shop" where
  "checkoutResume st env (AwaitingVariant cartId unicityId cart line rest inventoryErrors)
       (VariantAnswer answer) =
     (case answer of
        Inl thrown \<Rightarrow> checkoutReturn st cartId (CheckoutError thrown)
      | Inr variant \<Rightarrow>
          checkoutInventory st cartId unicityId cart rest
            (inventoryErrors @ inventoryIssue line variant))"
| "checkoutResume st env (AwaitingRequest cartId unicityId cart) (RequestAnswer answer) =
     (case answer of
        Inl err \<Rightarrow> checkoutReturn st cartId (SendFailed err)
      | Inr paymentRequest \<Rightarrow>
          checkoutReturn (recordCheckout st env cartId unicityId cart paymentRequest) cartId
            (RequestSent paymentRequest))"
| "checkoutResume st env task answer = (Suspended task, st)"

text \<open>
  The answers an invocation gets when nothing else runs during its awaits: the storefront's
  for the awaited line, and what \<open>sendPaymentRequest\<close> makes of the service as it is.
\<close>

fun answerOf :: "shop \<Rightarrow> checkout_env \<Rightarrow> checkout_task \<Rightarrow> awaited" where
  "answerOf st env (AwaitingVariant cartId unicityId cart line rest inventoryErrors) =
     VariantAnswer (env_getVariant env (cl_variantId line))"
| "answerOf st env (AwaitingRequest cartId unicityId cart) =
     RequestAnswer (sendPaymentRequest (nostrService st) (env_lookup env) (env_issue env)
                      cartId unicityId (c_subtotalCents cart))"

fun awaitsLeft :: "checkout_progress \<Rightarrow> nat" where
  "awaitsLeft (Returned response) = 0"
| "awaitsLeft (Suspended (AwaitingVariant cartId unicityId cart line rest inventoryErrors)) =
     length rest + 2"
| "awaitsLeft (Suspended (AwaitingRequest cartId unicityId cart)) = 1"

text \<open>An invocation run to its end with those answers.\<close>

function checkoutDrive ::
  "shop \<Rightarrow> checkout_env \<Rightarrow> checkout_progress \<Rightarrow> checkout_response \<times> shop" where
  "checkoutDrive st env (Returned response) = (response, st)"
| "checkoutDrive st env (Suspended task) =
     checkoutDrive (snd (checkoutResume st env task (answerOf st env task))) env
       (fst (checkoutResume st env task (answerOf st env task)))"
  by pat_completeness auto

termination checkoutDrive
proof (relation "measure (\<lambda>(st, env, progress). awaitsLeft progress)")
  show "wf (measure (\<lambda>(st, env, progress). awaitsLeft progress))"
    by simp
next
  fix st :: shop and env :: checkout_env and task :: checkout_task
  have "awaitsLeft (fst (checkoutResume st env task (answerOf st env task)))
          < awaitsLeft (Suspended task)"
  proof (cases task)
    case (AwaitingVariant cartId unicityId cart line rest inventoryErrors)
    then show ?thesis
      by (cases rest)
         (auto simp: checkoutInventory_def checkoutAfterInventory_def checkoutReturn_def
            split: sum.splits option.splits)
  next
    case (AwaitingRequest cartId unicityId cart)
    then show ?thesis
      by (auto simp: checkoutReturn_def split: sum.splits)
  qed
  then show "((snd (checkoutResume st env task (answerOf st env task)), env,
               fst (checkoutResume st env task (answerOf st env task))),
              st, env, Suspended task)
             \<in> measure (\<lambda>(st, env, progress). awaitsLeft progress)"
    by simp
qed

text \<open>
  The whole call, for an invocation during whose awaits nothing else runs: the handler is
  entered and driven to its end. \<open>checkout_unfold\<close> below gives it in one piece, as the lock
  around \<open>checkoutBody\<close>.
\<close>

definition checkout_with_unicity ::
  "shop \<Rightarrow> checkout_env \<Rightarrow> string \<Rightarrow> string \<Rightarrow> checkout_response \<times> shop" where
  "checkout_with_unicity st env cartId unicityId =
     checkoutDrive (snd (checkoutEnter st cartId unicityId)) env
       (fst (checkoutEnter st cartId unicityId))"

subsection \<open>Runs of the tool layer\<close>

text \<open>
  The state of the process as the lock sees it: the shop, the invocations of
  \<open>checkout_with_unicity\<close> that are suspended, and the responses returned so far, each with
  the cart id of its call.
\<close>

record checkout_system =
  sys_shop :: shop
  sys_tasks :: "checkout_task list"
  sys_returned :: "(string \<times> checkout_response) list"

text \<open>
  Cart objects are shared with the cart store, which changes them in place; a suspended
  invocation may find its cart changed when it goes on. \<open>sameCall\<close> relates what an invocation
  holds before and after such a change: the arguments, the point it is suspended at and its
  own list of issues are the same.
\<close>

fun sameCall :: "checkout_task \<Rightarrow> checkout_task \<Rightarrow> bool" where
  "sameCall (AwaitingVariant cartId unicityId cart line rest inventoryErrors)
            (AwaitingVariant cartId' unicityId' cart' line' rest' inventoryErrors') =
     (cartId = cartId' \<and> unicityId = unicityId' \<and> inventoryErrors = inventoryErrors')"
| "sameCall (AwaitingRequest cartId unicityId cart) (AwaitingRequest cartId' unicityId' cart') =
     (cartId = cartId' \<and> unicityId = unicityId')"
| "sameCall task task' = False"

text \<open>
  One piece of code that runs without interruption: a call of the tool up to its first
  \<open>await\<close>; the settling of the promise awaited by the \<open>i\<close>-th suspended invocation, which
  then runs to its next \<open>await\<close> or to its end; a change of the cart that invocation holds;
  and anything else the process runs. Only \<open>checkout_with_unicity\<close> writes the module's set
  \<open>checkoutLocks\<close> (\<open>clearCheckoutLocks\<close>, exported for the tests, is no part of a run), so
  \<open>Elsewhere f\<close> changes the shop as \<open>f\<close> says and leaves the set as it is.
\<close>

datatype system_action =
    CallCheckout string string
  | Answered nat checkout_env awaited
  | CartChanged nat checkout_task
  | Elsewhere "shop \<Rightarrow> shop"

fun systemStep :: "checkout_system \<Rightarrow> system_action \<Rightarrow> checkout_system" where
  "systemStep sys (CallCheckout cartId unicityId) =
     (case fst (checkoutEnter (sys_shop sys) cartId unicityId) of
        Returned response \<Rightarrow>
          sys\<lparr>sys_shop := snd (checkoutEnter (sys_shop sys) cartId unicityId),
              sys_returned := sys_returned sys @ [(cartId, response)]\<rparr>
      | Suspended task \<Rightarrow>
          sys\<lparr>sys_shop := snd (checkoutEnter (sys_shop sys) cartId unicityId),
              sys_tasks := sys_tasks sys @ [task]\<rparr>)"
| "systemStep sys (Answered i env answer) =
     (if i < length (sys_tasks sys) then
        (case fst (checkoutResume (sys_shop sys) env (sys_tasks sys ! i) answer) of
           Returned response \<Rightarrow>
             sys\<lparr>sys_shop := snd (checkoutResume (sys_shop sys) env (sys_tasks sys ! i) answer),
                 sys_tasks := take i (sys_tasks sys) @ drop (Suc i) (sys_tasks sys),
                 sys_returned :=
                   sys_returned sys @ [(taskCartId (sys_tasks sys ! i), response)]\<rparr>
         | Suspended task \<Rightarrow>
             sys\<lparr>sys_shop := snd (checkoutResume (sys_shop sys) env (sys_tasks sys ! i) answer),
                 sys_tasks := (sys_tasks sys)[i := task]\<rparr>)
      else sys)"
| "systemStep sys (CartChanged i task) =
     (if i < length (sys_tasks sys) \<and> sameCall (sys_tasks sys ! i) task
      then sys\<lparr>sys_tasks := (sys_tasks sys)[i := task]\<rparr>
      else sys)"
| "systemStep sys (Elsewhere f) =
     sys\<lparr>sys_shop := (f (sys_shop sys))\<lparr>checkoutLocks := checkoutLocks (sys_shop sys)\<rparr>\<rparr>"

definition systemRun :: "checkout_system \<Rightarrow> system_action list \<Rightarrow> checkout_system" where
  "systemRun sys acts = foldl systemStep sys acts"

text \<open>The process after the module is loaded: no lock, no invocation, no response.\<close>

definition startSystem :: "shop \<Rightarrow> checkout_system" where
  "startSystem st = \<lparr>sys_shop = clearCheckoutLocks st, sys_tasks = [], sys_returned = []\<rparr>"

subsection \<open>confirm_payment\<close>

text \<open>\<open>Math.min(Math.max(waitSeconds ?? 0, 0), 120)\<close>\<close>

definition effectiveWaitSeconds :: "real option \<Rightarrow> real" where
  "effectiveWaitSeconds waitSeconds =
     min (max (case waitSeconds of Some w \<Rightarrow> w | None \<Rightarrow> 0) 0) 120"

record confirm_env =
  ce_lookup :: "nat \<Rightarrow> string \<Rightarrow> string option"
  ce_waitTime :: nat
  ce_markTime :: nat
  ce_paidTime :: nat
  ce_unlockTime :: nat

datatype confirm_response =
    NoOrderFound
  | AlreadyConfirmed Order
  | NotAwaitingPayment OrderStatus
  | ConfirmNotConnected
  | PaymentConfirmed Order ConfirmedPayment
  | PaymentPending Order
  | UnresolvedId string
  | NoPaymentWithin real string failure
  | NoPendingPayment
  | ConfirmError failure

text \<open>
  The handler either answers at once or suspends on the promise of the wait it has
  registered; \<open>Waiting w order eventId seconds\<close> keeps what the continuation uses.
\<close>

datatype confirm_step = Done confirm_response | Waiting nat Order string real

text \<open>The two continuations of the awaited promise.\<close>

definition confirmPaid ::
  "shop \<Rightarrow> confirm_env \<Rightarrow> string \<Rightarrow> Order \<Rightarrow> ConfirmedPayment \<Rightarrow> confirm_response \<times> shop" where
  "confirmPaid st env cartId order confirmed =
     (PaymentConfirmed order confirmed,
      st\<lparr>orderStore := snd (markPaid (orderStore st) (ce_markTime env) (ce_paidTime env) cartId)\<rparr>)"

definition confirmTimedOut ::
  "shop \<Rightarrow> confirm_env \<Rightarrow> string \<Rightarrow> string \<Rightarrow> real \<Rightarrow> failure \<Rightarrow> confirm_response \<times> shop" where
  "confirmTimedOut st env cartId eventId seconds err =
     (NoPaymentWithin seconds eventId err,
      st\<lparr>orderStore :=
           snd (markPaymentTimeout (orderStore st) (ce_markTime env) (ce_paidTime env) cartId),
         cartStore := snd (unlockCart (cartStore st) (ce_unlockTime env) cartId)\<rparr>)"

definition confirmResume ::
  "shop \<Rightarrow> confirm_env \<Rightarrow> string \<Rightarrow> Order \<Rightarrow> string \<Rightarrow> real \<Rightarrow> settlement
     \<Rightarrow> confirm_response \<times> shop" where
  "confirmResume st env cartId order eventId seconds outcome =
     (case outcome of
        Resolved confirmed \<Rightarrow> confirmPaid st env cartId order confirmed
      | Rejected err \<Rightarrow> confirmTimedOut st env cartId eventId seconds err)"

text \<open>The call of \<open>waitForPayment\<close> inside the inner \<open>try\<close>.\<close>

definition confirmWait ::
  "shop \<Rightarrow> confirm_env \<Rightarrow> string \<Rightarrow> Order \<Rightarrow> string \<Rightarrow> string \<Rightarrow> string \<Rightarrow> int \<Rightarrow> real
     \<Rightarrow> confirm_step \<times> shop" where
  "confirmWait st env cartId order eventId unicityId customerPubkey amountTokens seconds =
     (case waitForPayment (nostrService st) (ce_waitTime env) cartId eventId unicityId
             customerPubkey amountTokens (Some (seconds * 1000)) of
        (WaitThrew err, ns) \<Rightarrow>
          (case confirmTimedOut (st\<lparr>nostrService := ns\<rparr>) env cartId eventId seconds err of
             (response, st') \<Rightarrow> (Done response, st'))
      | (WaitReturned confirmed, ns) \<Rightarrow>
          (case confirmPaid (st\<lparr>nostrService := ns\<rparr>) env cartId order confirmed of
             (response, st') \<Rightarrow> (Done response, st'))
      | (WaitPending w, ns) \<Rightarrow> (Waiting w order eventId seconds, st\<lparr>nostrService := ns\<rparr>))"

text \<open>
  No entry for the cart in the index: the wait is registered again from what the order
  recorded, after resolving the alias once more.
\<close>

definition confirmReRegister ::
  "shop \<Rightarrow> confirm_env \<Rightarrow> string \<Rightarrow> Order \<Rightarrow> real \<Rightarrow> confirm_step \<times> shop" where
  "confirmReRegister st env cartId order seconds =
     (case o_paymentEventId order of
        None \<Rightarrow> (Done NoPendingPayment, st)
      | Some eventId \<Rightarrow>
          (case o_unicityId order of
             None \<Rightarrow> (Done NoPendingPayment, st)
           | Some unicityId \<Rightarrow>
               if \<not> truthy eventId \<or> \<not> truthy unicityId then (Done NoPendingPayment, st)
               else
                 (case resolveUnicityId (client (nostrService st)) (ce_lookup env) unicityId of
                    Inl err \<Rightarrow> (Done (ConfirmError err), st)
                  | Inr (None, effects) \<Rightarrow> (Done (UnresolvedId unicityId), st)
                  | Inr (Some customerPubkey, effects) \<Rightarrow>
                      if \<not> truthy customerPubkey then (Done (UnresolvedId unicityId), st)
                      else confirmWait st env cartId order eventId unicityId customerPubkey
                             (o_totalAmountCents order) seconds)))"

definition confirmStart ::
  "shop \<Rightarrow> confirm_env \<Rightarrow> string \<Rightarrow> real option \<Rightarrow> confirm_step \<times> shop" where
  "confirmStart st env cartId waitSeconds =
     (let seconds = effectiveWaitSeconds waitSeconds in
      case getOrderByCartId (orderStore st) cartId of
        None \<Rightarrow> (Done NoOrderFound, st)
      | Some order \<Rightarrow>
          if o_status order = Paid then (Done (AlreadyConfirmed order), st)
          else if o_status order \<noteq> AwaitingPayment
          then (Done (NotAwaitingPayment (o_status order)), st)
          else if \<not> isConnected (nostrService st) then (Done ConfirmNotConnected, st)
          else
            (case getConfirmedPayment (nostrService st) cartId of
               Some confirmedPayment \<Rightarrow>
                 (case confirmPaid st env cartId order confirmedPayment of
                    (response, st') \<Rightarrow> (Done response, st'))
             | None \<Rightarrow>
                 if seconds = 0 then (Done (PaymentPending order), st)
                 else
                   (case getPendingPaymentByCartId (nostrService st) cartId of
                      Some pendingPayment \<Rightarrow>
                        confirmWait st env cartId order (pp_eventId pendingPayment)
                          (pp_unicityId pendingPayment) (pp_customerPubkey pendingPayment)
                          (pp_amountTokens pendingPayment) seconds
                    | None \<Rightarrow> confirmReRegister st env cartId order seconds)))"

section \<open>Invariants of the registry\<close>

text \<open>No two calls of \<open>waitForPayment\<close> have registered the same event id.\<close>

definition eventIdsDistinct :: "NostrService \<Rightarrow> bool" where
  "eventIdsDistinct s = distinct (map w_eventId (waiters s))"

text \<open>
  Every entry of the index, and every match held by a suspended handler, is filed under its
  own event id and belongs to a call that registered that id.
\<close>

definition pendingWellFormed :: "NostrService \<Rightarrow> bool" where
  "pendingWellFormed s \<longleftrightarrow>
     (\<forall>(k, p) \<in> set (pendingPayments s).
        pp_eventId p = k \<and> pp_waiter p < length (waiters s) \<and>
        w_eventId (waiters s ! pp_waiter p) = k) \<and>
     (\<forall>(ev, p) \<in> set (inflight s).
        pp_waiter p < length (waiters s) \<and>
        w_eventId (waiters s ! pp_waiter p) = pp_eventId p)"

text \<open>The promise of every entry of the index is unsettled.\<close>

definition pendingUnsettled :: "NostrService \<Rightarrow> bool" where
  "pendingUnsettled s \<longleftrightarrow>
     (\<forall>(k, p) \<in> set (pendingPayments s). w_promise (waiters s ! pp_waiter p) = None)"

text \<open>Every unsettled promise still has its entry in the index.\<close>

definition unsettledArePending :: "NostrService \<Rightarrow> bool" where
  "unsettledArePending s \<longleftrightarrow>
     (\<forall>w < length (waiters s). w_promise (waiters s ! w) = None \<longrightarrow>
        (case map_of (pendingPayments s) (w_eventId (waiters s ! w)) of
           Some p \<Rightarrow> pp_waiter p = w | None \<Rightarrow> False))"

text \<open>Every promise whose timer has fired or was cleared is settled.\<close>

definition finishedTimersSettled :: "NostrService \<Rightarrow> bool" where
  "finishedTimersSettled s \<longleftrightarrow>
     (\<forall>w < length (waiters s). w_timer (waiters s ! w) \<noteq> Armed \<longrightarrow>
        w_promise (waiters s ! w) \<noteq> None)"

definition serviceInv :: "NostrService \<Rightarrow> bool" where
  "serviceInv s \<longleftrightarrow>
     pendingWellFormed s \<and> pendingUnsettled s \<and>
     (eventIdsDistinct s \<longrightarrow> unsettledArePending s \<and> finishedTimersSettled s)"

text \<open>
  The shape shared by every path that ends a wait: the entry under the event id of call
  \<open>w\<close> leaves the index and the promise of \<open>w\<close> is settled; no other promise changes.
\<close>

definition removesAndSettles :: "NostrService \<Rightarrow> NostrService \<Rightarrow> nat \<Rightarrow> bool" where
  "removesAndSettles s s' w \<longleftrightarrow>
     w < length (waiters s) \<and>
     pendingPayments s' = AList.delete (w_eventId (waiters s ! w)) (pendingPayments s) \<and>
     set (inflight s') \<subseteq> set (inflight s) \<and>
     map w_eventId (waiters s') = map w_eventId (waiters s) \<and>
     w_promise (waiters s' ! w) \<noteq> None \<and>
     (\<forall>v < length (waiters s).
        (w_promise (waiters s ! v) \<noteq> None \<or> v \<noteq> w \<longrightarrow>
           w_promise (waiters s' ! v) = w_promise (waiters s ! v)) \<and>
        (w_timer (waiters s' ! v) = w_timer (waiters s ! v) \<or>
           v = w \<and> w_timer (waiters s' ! v) \<noteq> Armed))"

text \<open>Settled promises keep their value from \<open>s\<close> to \<open>s'\<close>.\<close>

definition promisesKept :: "NostrService \<Rightarrow> NostrService \<Rightarrow> bool" where
  "promisesKept s s' \<longleftrightarrow>
     length (waiters s) \<le> length (waiters s') \<and>
     (\<forall>v < length (waiters s). w_promise (waiters s ! v) \<noteq> None \<longrightarrow>
        w_promise (waiters s' ! v) = w_promise (waiters s ! v))"

section \<open>Further invariants\<close>

text \<open>
  A configured service holds its client and its identity service, and the index has entries
  on a configured service only.
\<close>

definition lifecycleInv :: "NostrService \<Rightarrow> bool" where
  "lifecycleInv s \<longleftrightarrow>
     (config s \<noteq> None \<longrightarrow> client s \<and> identityService s) \<and>
     (pendingPayments s \<noteq> [] \<longrightarrow> config s \<noteq> None)"

text \<open>
  A wait is orphaned when its promise is unsettled, its timer is no longer armed, and neither
  the index nor a suspended handler holds an entry of it.
\<close>

definition orphaned :: "NostrService \<Rightarrow> nat \<Rightarrow> bool" where
  "orphaned s w \<longleftrightarrow>
     w < length (waiters s) \<and> w_promise (waiters s ! w) = None \<and>
     w_timer (waiters s ! w) \<noteq> Armed \<and>
     (\<forall>x \<in> set (pendingPayments s). pp_waiter (snd x) \<noteq> w) \<and>
     (\<forall>x \<in> set (inflight s). pp_waiter (snd x) \<noteq> w)"

text \<open>
  What one piece of an invocation for \<open>cartId\<close> does to the lock set: it keeps the set while
  the invocation is suspended and takes the cart out when the invocation returns.
\<close>

definition lockStep :: "string \<Rightarrow> shop \<Rightarrow> checkout_progress \<times> shop \<Rightarrow> bool" where
  "lockStep cartId st result \<longleftrightarrow>
     (case fst result of
        Returned response \<Rightarrow> checkoutLocks (snd result) = checkoutLocks st - {cartId}
      | Suspended task \<Rightarrow>
          taskCartId task = cartId \<and> checkoutLocks (snd result) = checkoutLocks st)"

text \<open>
  The lock set holds exactly the carts of the suspended invocations, and no two suspended
  invocations have the same cart.
\<close>

definition lockInv :: "checkout_system \<Rightarrow> bool" where
  "lockInv sys \<longleftrightarrow>
     distinct (map taskCartId (sys_tasks sys)) \<and>
     checkoutLocks (sys_shop sys) = set (map taskCartId (sys_tasks sys))"

section \<open>Example states, events and environments\<close>

text \<open>
  The values of the repository's tests: one wait for cart \<open>cart-1\<close> under event id
  \<open>evt-1\<close>, expecting 4999 tokens from \<open>customer-pubkey-hex\<close>.
\<close>

definition exampleConfig :: Config where
  "exampleConfig = \<lparr>nametag = ''runic-vault'', paymentCoinId = ''test-coin-id'',
                      paymentTimeoutSeconds = 120\<rparr>"

definition oneWait :: "action list" where
  "oneWait = [Initialize exampleConfig, ConnectSettles True ''sub-123'',
              Wait 0 ''cart-1'' ''evt-1'' ''@alice'' ''customer-pubkey-hex'' 4999 (Some 5000)]"

text \<open>
  Two calls of \<open>waitForPayment\<close> under the same event id, as two overlapping
  \<open>confirm_payment\<close> calls for one cart make them, followed by both timers.
\<close>

definition overlappingWaits :: "action list" where
  "overlappingWaits = oneWait @
     [Wait 1 ''cart-1'' ''evt-1'' ''@alice'' ''customer-pubkey-hex'' 4999 (Some 9000),
      TimerFires 0, TimerFires 1]"

definition exampleTransfer :: "string option \<Rightarrow> int option \<Rightarrow> string + string \<Rightarrow> transfer_event" where
  "exampleTransfer replyTo amount tokenJson =
     \<lparr>ev_id = ''transfer-evt-1'', ev_isTokenTransfer = True, ev_replyTo = replyTo,
      ev_sender = ''customer-pubkey-hex'', ev_amount = amount, ev_tokenJson = tokenJson,
      ev_finalization = Inr True\<rparr>"

text \<open>The service after \<open>oneWait\<close>.\<close>

definition waitingService :: NostrService where
  "waitingService =
     \<lparr>client = True, connected = True, config = Some exampleConfig, identityService = True,
      pendingPayments =
        [(''evt-1'', \<lparr>pp_cartId = ''cart-1'', pp_eventId = ''evt-1'', pp_unicityId = ''alice'',
                      pp_customerPubkey = ''customer-pubkey-hex'', pp_amountTokens = 4999,
                      pp_createdAt = 0, pp_waiter = 0\<rparr>)],
      confirmedPayments = [], transferSubscriptionId = Some ''sub-123'', isInitialized = True,
      waiters = [\<lparr>w_eventId = ''evt-1'', w_timeout = 5000, w_timer = Armed, w_promise = None\<rparr>],
      inflight = [], connecting = 0, relayCalls = [Connect, Subscribe]\<rparr>"

definition pendingEntry :: PendingPayment where
  "pendingEntry = \<lparr>pp_cartId = ''cart-1'', pp_eventId = ''evt-1'', pp_unicityId = ''alice'',
                      pp_customerPubkey = ''customer-pubkey-hex'', pp_amountTokens = 4999,
                      pp_createdAt = 0, pp_waiter = 0\<rparr>"

definition confirmedEntry :: ConfirmedPayment where
  "confirmedEntry = \<lparr>cp_cartId = ''cart-1'', cp_requestEventId = ''evt-1'',
                        cp_transferEventId = ''transfer-evt-1'', cp_confirmedAt = 7\<rparr>"

text \<open>The wait of \<open>oneWait\<close>, then the payment of 4999 tokens that names the request.\<close>

definition paidRun :: "action list" where
  "paidRun = oneWait @
     [TransferArrives (exampleTransfer (Some ''evt-1'') (Some 4999) (Inr ''{}'')),
      TransferResumes 7 0]"

text \<open>A relay that knows no alias, and one that knows the customer.\<close>

definition neverFound :: "nat \<Rightarrow> string \<Rightarrow> string option" where
  "neverFound n unicityId = None"

definition knownCustomer :: "nat \<Rightarrow> string \<Rightarrow> string option" where
  "knownCustomer n unicityId = Some ''customer-pubkey-hex''"

text \<open>The service right after \<open>initialize\<close>.\<close>

definition connectedService :: NostrService where
  "connectedService =
     \<lparr>client = True, connected = True, config = Some exampleConfig, identityService = True,
      pendingPayments = [], confirmedPayments = [], transferSubscriptionId = Some ''sub-123'',
      isInitialized = True, waiters = [], inflight = [], connecting = 0,
      relayCalls = [Connect, Subscribe]\<rparr>"

definition exampleCart :: Cart where
  "exampleCart =
     \<lparr>c_id = ''cart-1'',
      c_lines = [\<lparr>cl_id = ''line-1'', cl_variantId = ''variant-1'', cl_variantTitle = ''Default'',
                  cl_productTitle = ''Card'', cl_productHandle = ''card'', cl_quantity = 1,
                  cl_unitPriceCents = 4999, cl_lineTotalCents = 4999, cl_currency = ''AED''\<rparr>],
      c_subtotalCents = 4999, c_currency = ''AED'', c_createdAt = 1, c_updatedAt = 2,
      c_lockedForCheckout = None\<rparr>"

definition exampleShop :: shop where
  "exampleShop = \<lparr>checkoutLocks = {}, cartStore = [(''cart-1'', exampleCart)], orderStore = [],
                    nostrService = connectedService\<rparr>"

definition exampleEnv :: "(nat \<Rightarrow> string \<Rightarrow> string option) \<Rightarrow> string + string \<Rightarrow> checkout_env" where
  "exampleEnv answers sent =
     \<lparr>env_getVariant = (\<lambda>variantId. Inr (Some \<lparr>v_availableForSale = True,
                                                   v_quantityAvailable = Some 3\<rparr>)),
      env_lookup = answers, env_issue = sent, env_orderUuid = ''order-1'',
      env_orderTime = 10, env_awaitingTime = 11, env_lockTime = 12\<rparr>"

definition exampleOrder :: "OrderStatus \<Rightarrow> Order" where
  "exampleOrder status =
     \<lparr>o_id = ''order-0'', o_cartId = ''cart-1'', o_status = status, o_totalAmountCents = 4999,
      o_currency = ''AED'', o_paymentEventId = Some ''evt-1'', o_unicityId = Some ''@alice'',
      o_createdAt = 3, o_updatedAt = 4, o_paidAt = (if status = Paid then Some 4 else None)\<rparr>"

text \<open>
  Two calls of \<open>checkout_with_unicity\<close> for \<open>cart-1\<close>: \<open>aliceWaits\<close> is the process while the
  first call awaits the storefront.
\<close>

definition inStock :: Variant where
  "inStock = \<lparr>v_availableForSale = True, v_quantityAvailable = Some 3\<rparr>"

definition exampleRequest :: PaymentRequestResult where
  "exampleRequest =
     \<lparr>pr_eventId = ''evt-1'', pr_amountTokens = 4999, pr_recipientNametag = ''runic-vault'',
      pr_coinId = ''test-coin-id'', pr_customerPubkey = ''customer-pubkey-hex''\<rparr>"

definition aliceWaits :: checkout_system where
  "aliceWaits =
     \<lparr>sys_shop = exampleShop\<lparr>checkoutLocks := {''cart-1''}\<rparr>,
      sys_tasks = [AwaitingVariant ''cart-1'' ''@alice'' exampleCart (hd (c_lines exampleCart)) [] []],
      sys_returned = []\<rparr>"

text \<open>A shop whose order for \<open>cart-1\<close> awaits payment, with the wait already registered.\<close>

definition awaitingShop :: shop where
  "awaitingShop = \<lparr>checkoutLocks = {},
                     cartStore = [(''cart-1'', exampleCart\<lparr>c_lockedForCheckout := Some True\<rparr>)],
                     orderStore = [(''cart-1'', exampleOrder AwaitingPayment)],
                     nostrService = waitingService\<rparr>"

definition exampleConfirmEnv :: confirm_env where
  "exampleConfirmEnv = \<lparr>ce_lookup = knownCustomer, ce_waitTime = 40,
                          ce_markTime = 41, ce_paidTime = 42, ce_unlockTime = 43\<rparr>"

text \<open>
  The shop after the checkout of \<open>cart-1\<close>, and two calls of \<open>confirm_payment\<close> for that
  cart, the second made while the first is waiting. \<open>firstWaiting\<close> and \<open>bothWaiting\<close> are the
  service after the first and after the second call.
\<close>

definition checkedOutShop :: shop where
  "checkedOutShop =
     snd (checkout_with_unicity exampleShop (exampleEnv knownCustomer (Inr ''evt-1''))
            ''cart-1'' ''@alice'')"

definition checkedOutOrder :: Order where
  "checkedOutOrder =
     \<lparr>o_id = ''order-1'', o_cartId = ''cart-1'', o_status = AwaitingPayment,
      o_totalAmountCents = 4999, o_currency = ''AED'', o_paymentEventId = Some ''evt-1'',
      o_unicityId = Some ''@alice'', o_createdAt = 10, o_updatedAt = 11, o_paidAt = None\<rparr>"

definition firstConfirm :: "confirm_step \<times> shop" where
  "firstConfirm = confirmStart checkedOutShop exampleConfirmEnv ''cart-1'' (Some 30)"

definition secondConfirm :: "confirm_step \<times> shop" where
  "secondConfirm =
     confirmStart (snd firstConfirm) (exampleConfirmEnv\<lparr>ce_waitTime := 45\<rparr>) ''cart-1'' (Some 60)"

definition twoWaits :: NostrService where
  "twoWaits = nostrService (snd secondConfirm)"

definition firstWaiting :: NostrService where
  "firstWaiting =
     connectedService\<lparr>
       pendingPayments := [(''evt-1'', pendingEntry\<lparr>pp_createdAt := 40\<rparr>)],
       waiters := [\<lparr>w_eventId = ''evt-1'', w_timeout = 30000, w_timer = Armed,
                    w_promise = None\<rparr>]\<rparr>"

definition bothWaiting :: NostrService where
  "bothWaiting =
     connectedService\<lparr>
       pendingPayments := [(''evt-1'', pendingEntry\<lparr>pp_createdAt := 45, pp_waiter := 1\<rparr>)],
       waiters := [\<lparr>w_eventId = ''evt-1'', w_timeout = 30000, w_timer = Armed,
                    w_promise = None\<rparr>,
                   \<lparr>w_eventId = ''evt-1'', w_timeout = 60000, w_timer = Armed,
                    w_promise = None\<rparr>]\<rparr>"

chapter \<open>Properties\<close>

section \<open>Properties of alias resolution\<close>

lemma retryLoop_all_fail:
  "(\<And>n. a \<le> n \<Longrightarrow> n \<le> m \<Longrightarrow> notFound (lookup n c)) \<Longrightarrow>
   retryLoop lookup c m a =
     (None, concat (map (\<lambda>i. Query c # (if i < m then [Sleep (1000 * 2 ^ (i - 1))] else []))
                        [a..<Suc m]))"
proof (induction lookup c m a rule: retryLoop.induct)
  case (1 lookup c m a)
  show ?case
  proof (cases "a \<le> m")
    case False
    then show ?thesis by (simp add: retryLoop.simps)
  next
    case True
    have "notFound (lookup a c)" using 1(2)[of a] True by simp
    then have inner:
      "(case lookup a c of Some pubkey \<Rightarrow> if truthy pubkey then Some pubkey else None
        | None \<Rightarrow> None) = None"
      by (auto simp: notFound_def split: option.splits)
    have ih: "retryLoop lookup c m (Suc a) =
       (None, concat (map (\<lambda>i. Query c # (if i < m then [Sleep (1000 * 2 ^ (i - 1))] else []))
                          [Suc a..<Suc m]))"
      using 1(1)[OF True inner] 1(2) by simp
    have "[a..<Suc m] = a # [Suc a..<Suc m]" using True by (simp add: upt_conv_Cons)
    then show ?thesis
      using True inner ih by (subst retryLoop.simps) simp
  qed
qed

lemma retryLoop_first_success:
  "a \<le> k \<Longrightarrow> k \<le> m \<Longrightarrow> lookup k c = Some pk \<Longrightarrow> truthy pk \<Longrightarrow>
   (\<And>n. a \<le> n \<Longrightarrow> n < k \<Longrightarrow> notFound (lookup n c)) \<Longrightarrow>
   retryLoop lookup c m a =
     (Some pk, concat (map (\<lambda>i. [Query c, Sleep (1000 * 2 ^ (i - 1))]) [a..<k]) @ [Query c])"
proof (induction lookup c m a rule: retryLoop.induct)
  case (1 lookup c m a)
  show ?case
  proof (cases "a = k")
    case True
    then show ?thesis using 1(3,4,5) by (subst retryLoop.simps) simp
  next
    case False
    then have lt: "a < k" using 1(2) by simp
    then have am: "a \<le> m" "a < m" using 1(3) by simp_all
    have "notFound (lookup a c)" using 1(6)[of a] lt by simp
    then have inner:
      "(case lookup a c of Some pubkey \<Rightarrow> if truthy pubkey then Some pubkey else None
        | None \<Rightarrow> None) = None"
      by (auto simp: notFound_def split: option.splits)
    have ih: "retryLoop lookup c m (Suc a) =
      (Some pk, concat (map (\<lambda>i. [Query c, Sleep (1000 * 2 ^ (i - 1))]) [Suc a..<k]) @ [Query c])"
      using 1(1)[OF am(1) inner] lt 1(3,4,5,6) by simp
    have "[a..<k] = a # [Suc a..<k]" using lt by (simp add: upt_conv_Cons)
    then show ?thesis
      using am inner ih by (subst retryLoop.simps) simp
  qed
qed

lemma upt_1_4: "[Suc 0..<4] = [Suc 0, 2, 3]"
  by (simp add: upt_conv_Cons)

lemma schedule_prefix:
  assumes "k = 1 \<or> k = 2 \<or> k = (3::nat)"
  shows "concat (map (\<lambda>i. [Query c, Sleep (1000 * 2 ^ (i - 1))]) [1..<k]) @ [Query c] =
     take (2 * k - 1) [Query c, Sleep 1000, Query c, Sleep 2000, Query c]"
proof -
  have u: "[Suc 0..<2] = [Suc 0]" "[Suc 0..<3] = [Suc 0, 2]"
    by (simp_all add: upt_conv_Cons)
  from assms show ?thesis
  proof (elim disjE)
    assume "k = 1" then show ?thesis by simp
  next
    assume "k = 2" then show ?thesis by (simp add: u)
  next
    assume "k = 3" then show ?thesis by (simp add: u)
  qed
qed

text \<open>
  Claim C7. With the default of three attempts: when every lookup answers not-found, the
  resolver queries exactly three times, sleeps 1000 ms after the first failure and 2000 ms
  after the second (\<open>1000 * 2 ^ (attempt - 1)\<close>), does not sleep after the third, and returns
  \<open>null\<close>. When the \<open>k\<close>-th lookup is the first to succeed, the resolver returns that
  address and the schedule stops right after the \<open>k\<close>-th query. It throws exactly when the
  client is absent, and the error is then the not-initialized one.
\<close>

theorem resolvePubkeyWithRetry_schedule:
  "(clientPresent \<and> (\<forall>n. notFound (lookup n (normalizeId unicityId))) \<longrightarrow>
      resolvePubkeyWithRetry clientPresent lookup unicityId 3 =
        Inr (None, [Query (normalizeId unicityId), Sleep (1000 * 2 ^ (1 - 1)),
                    Query (normalizeId unicityId), Sleep (1000 * 2 ^ (2 - 1)),
                    Query (normalizeId unicityId)]))
   \<and> (clientPresent \<and> 1 \<le> k \<and> k \<le> 3 \<and> lookup k (normalizeId unicityId) = Some pk \<and> truthy pk
        \<and> (\<forall>n. 1 \<le> n \<and> n < k \<longrightarrow> notFound (lookup n (normalizeId unicityId))) \<longrightarrow>
      resolvePubkeyWithRetry clientPresent lookup unicityId 3 =
        Inr (Some pk, take (2 * k - 1)
                        [Query (normalizeId unicityId), Sleep 1000,
                         Query (normalizeId unicityId), Sleep 2000,
                         Query (normalizeId unicityId)]))
   \<and> ((\<exists>e. resolvePubkeyWithRetry clientPresent lookup unicityId maxRetries = Inl e)
          \<longleftrightarrow> \<not> clientPresent)
   \<and> (\<forall>e. resolvePubkeyWithRetry clientPresent lookup unicityId maxRetries = Inl e
          \<longrightarrow> e = NotInitialized)"
proof (intro conjI impI allI)
  assume h: "clientPresent \<and> (\<forall>n. notFound (lookup n (normalizeId unicityId)))"
  then have "retryLoop lookup (normalizeId unicityId) 3 1 =
     (None, concat (map (\<lambda>i. Query (normalizeId unicityId) #
                              (if i < 3 then [Sleep (1000 * 2 ^ (i - 1))] else []))
                        [1..<Suc 3]))"
    by (intro retryLoop_all_fail) simp
  then show "resolvePubkeyWithRetry clientPresent lookup unicityId 3 =
        Inr (None, [Query (normalizeId unicityId), Sleep (1000 * 2 ^ (1 - 1)),
                    Query (normalizeId unicityId), Sleep (1000 * 2 ^ (2 - 1)),
                    Query (normalizeId unicityId)])"
    using h by (simp add: resolvePubkeyWithRetry_def upt_1_4)
next
  assume h: "clientPresent \<and> 1 \<le> k \<and> k \<le> 3 \<and> lookup k (normalizeId unicityId) = Some pk
     \<and> truthy pk \<and> (\<forall>n. 1 \<le> n \<and> n < k \<longrightarrow> notFound (lookup n (normalizeId unicityId)))"
  then have loop: "retryLoop lookup (normalizeId unicityId) 3 1 =
     (Some pk, concat (map (\<lambda>i. [Query (normalizeId unicityId), Sleep (1000 * 2 ^ (i - 1))])
                           [1..<k]) @ [Query (normalizeId unicityId)])"
    by (intro retryLoop_first_success) simp_all
  from h have "k = 1 \<or> k = 2 \<or> k = 3" by auto
  then have "concat (map (\<lambda>i. [Query (normalizeId unicityId), Sleep (1000 * 2 ^ (i - 1))])
                         [1..<k]) @ [Query (normalizeId unicityId)] =
     take (2 * k - 1) [Query (normalizeId unicityId), Sleep 1000,
                       Query (normalizeId unicityId), Sleep 2000,
                       Query (normalizeId unicityId)]"
    by (rule schedule_prefix)
  then show "resolvePubkeyWithRetry clientPresent lookup unicityId 3 =
        Inr (Some pk, take (2 * k - 1)
                        [Query (normalizeId unicityId), Sleep 1000,
                         Query (normalizeId unicityId), Sleep 2000,
                         Query (normalizeId unicityId)])"
    using h loop by (simp add: resolvePubkeyWithRetry_def)
next
  show "(\<exists>e. resolvePubkeyWithRetry clientPresent lookup unicityId maxRetries = Inl e)
          \<longleftrightarrow> \<not> clientPresent"
    by (simp add: resolvePubkeyWithRetry_def)
next
  fix e
  assume "resolvePubkeyWithRetry clientPresent lookup unicityId maxRetries = Inl e"
  then show "e = NotInitialized"
    by (simp add: resolvePubkeyWithRetry_def split: if_splits)
qed

theorem resolvePubkeyWithRetry_schedule_witness:
  "resolvePubkeyWithRetry True (\<lambda>n c. None) ''@nonexistent'' 3 =
     Inr (None, [Query ''nonexistent'', Sleep 1000, Query ''nonexistent'', Sleep 2000,
                 Query ''nonexistent''])
   \<and> resolvePubkeyWithRetry True (\<lambda>n c. if n = 3 then Some ''success-on-third'' else None)
        ''bob'' 3 =
     Inr (Some ''success-on-third'', [Query ''bob'', Sleep 1000, Query ''bob'', Sleep 2000,
                                        Query ''bob''])
   \<and> resolvePubkeyWithRetry False (\<lambda>n c. Some ''pk'') ''alice'' 3 = Inl NotInitialized"
  using resolvePubkeyWithRetry_schedule
          [of True "\<lambda>n c. None" "''@nonexistent''" 3 "''x''" 3]
        resolvePubkeyWithRetry_schedule
          [of True "\<lambda>n c. if n = 3 then Some ''success-on-third'' else None" "''bob''" 3
              "''success-on-third''" 3]
        resolvePubkeyWithRetry_schedule
          [of False "\<lambda>n c. Some ''pk''" "''alice''" 3 "''pk''" 3]
  by (auto simp: normalizeId_def notFound_def truthy_def)

section \<open>The registry invariant: what ends a wait\<close>

lemma set_update_cases:
  "(k', p) \<in> set (AList.update k v al) \<Longrightarrow> (k' = k \<and> p = v) \<or> (k', p) \<in> set al"
  by (induction al) (auto split: if_splits)

lemma set_delete_subset: "(k', p) \<in> set (AList.delete k al) \<Longrightarrow> (k', p) \<in> set al \<and> k' \<noteq> k"
  by (auto simp: AList.delete_eq)

lemma find_snd_in_set:
  "find P (map snd al) = Some p \<Longrightarrow> \<exists>k. (k, p) \<in> set al"
  by (induction al) (auto split: if_splits)

lemma settle_other [simp]:
  "pendingPayments (settle s w out) = pendingPayments s"
  "inflight (settle s w out) = inflight s"
  "confirmedPayments (settle s w out) = confirmedPayments s"
  "config (settle s w out) = config s"
  "client (settle s w out) = client s"
  "identityService (settle s w out) = identityService s"
  "transferSubscriptionId (settle s w out) = transferSubscriptionId s"
  "isInitialized (settle s w out) = isInitialized s"
  "relayCalls (settle s w out) = relayCalls s"
  "length (waiters (settle s w out)) = length (waiters s)"
  by (simp_all add: settle_def split: option.splits)

lemma settle_eventIds [simp]:
  "map w_eventId (waiters (settle s w out)) = map w_eventId (waiters s)"
  by (auto simp: settle_def map_update list_update_same_conv split: option.splits)

lemma settle_nth [simp]:
  "v < length (waiters s) \<Longrightarrow>
     w_eventId (waiters (settle s w out) ! v) = w_eventId (waiters s ! v) \<and>
     w_timeout (waiters (settle s w out) ! v) = w_timeout (waiters s ! v) \<and>
     w_timer (waiters (settle s w out) ! v) = w_timer (waiters s ! v) \<and>
     w_promise (waiters (settle s w out) ! v) =
       (if v = w \<and> w_promise (waiters s ! v) = None then Some out
        else w_promise (waiters s ! v))"
  by (auto simp: settle_def nth_list_update split: option.splits)

lemma clearTimeout_other [simp]:
  "pendingPayments (clearTimeout s w) = pendingPayments s"
  "inflight (clearTimeout s w) = inflight s"
  "confirmedPayments (clearTimeout s w) = confirmedPayments s"
  "config (clearTimeout s w) = config s"
  "client (clearTimeout s w) = client s"
  "identityService (clearTimeout s w) = identityService s"
  "transferSubscriptionId (clearTimeout s w) = transferSubscriptionId s"
  "isInitialized (clearTimeout s w) = isInitialized s"
  "relayCalls (clearTimeout s w) = relayCalls s"
  "length (waiters (clearTimeout s w)) = length (waiters s)"
  by (simp_all add: clearTimeout_def)

lemma clearTimeout_eventIds [simp]:
  "map w_eventId (waiters (clearTimeout s w)) = map w_eventId (waiters s)"
  by (auto simp: clearTimeout_def map_update list_update_same_conv)

lemma clearTimeout_nth [simp]:
  "v < length (waiters s) \<Longrightarrow>
     w_eventId (waiters (clearTimeout s w) ! v) = w_eventId (waiters s ! v) \<and>
     w_timeout (waiters (clearTimeout s w) ! v) = w_timeout (waiters s ! v) \<and>
     w_promise (waiters (clearTimeout s w) ! v) = w_promise (waiters s ! v) \<and>
     w_timer (waiters (clearTimeout s w) ! v) =
       (if v = w \<and> w_timer (waiters s ! v) = Armed then Cleared
        else w_timer (waiters s ! v))"
  by (auto simp: clearTimeout_def nth_list_update)

lemma ras_length: "removesAndSettles s s' w \<Longrightarrow> length (waiters s') = length (waiters s)"
  unfolding removesAndSettles_def by (metis length_map)

lemma ras_eventId:
  "removesAndSettles s s' w \<Longrightarrow> v < length (waiters s) \<Longrightarrow>
     w_eventId (waiters s' ! v) = w_eventId (waiters s ! v)"
  unfolding removesAndSettles_def by (metis length_map nth_map)

lemma ras_wellFormed:
  assumes "removesAndSettles s s' w" "pendingWellFormed s"
  shows "pendingWellFormed s'"
proof -
  have len: "length (waiters s') = length (waiters s)" using assms(1) by (rule ras_length)
  have pend: "pendingPayments s' = AList.delete (w_eventId (waiters s ! w)) (pendingPayments s)"
    and infl: "set (inflight s') \<subseteq> set (inflight s)"
    using assms(1) by (simp_all add: removesAndSettles_def)
  show ?thesis
    unfolding pendingWellFormed_def
  proof (intro conjI ballI)
    fix x assume "x \<in> set (pendingPayments s')"
    then have "x \<in> set (pendingPayments s)" by (auto simp: pend AList.delete_eq)
    then show "case x of (k, p) \<Rightarrow> pp_eventId p = k \<and> pp_waiter p < length (waiters s') \<and>
        w_eventId (waiters s' ! pp_waiter p) = k"
      using assms(2) len ras_eventId[OF assms(1)] by (auto simp: pendingWellFormed_def)
  next
    fix x assume "x \<in> set (inflight s')"
    then have "x \<in> set (inflight s)" using infl by auto
    then show "case x of (ev, p) \<Rightarrow> pp_waiter p < length (waiters s') \<and>
        w_eventId (waiters s' ! pp_waiter p) = pp_eventId p"
      using assms(2) len ras_eventId[OF assms(1)] by (auto simp: pendingWellFormed_def)
  qed
qed

lemma ras_pendingUnsettled:
  assumes "removesAndSettles s s' w" "pendingWellFormed s" "pendingUnsettled s"
  shows "pendingUnsettled s'"
  unfolding pendingUnsettled_def
proof (intro ballI)
  fix x assume x: "x \<in> set (pendingPayments s')"
  obtain k p where kp: "x = (k, p)" by (cases x)
  have pend: "pendingPayments s' = AList.delete (w_eventId (waiters s ! w)) (pendingPayments s)"
    using assms(1) by (simp add: removesAndSettles_def)
  from x kp pend have mem: "(k, p) \<in> set (pendingPayments s)" and ne: "k \<noteq> w_eventId (waiters s ! w)"
    by (auto simp: AList.delete_eq)
  from mem assms(2) have wf: "pp_waiter p < length (waiters s)" "w_eventId (waiters s ! pp_waiter p) = k"
    by (auto simp: pendingWellFormed_def)
  from wf ne have "pp_waiter p \<noteq> w" by auto
  moreover from mem assms(3) have "w_promise (waiters s ! pp_waiter p) = None"
    by (auto simp: pendingUnsettled_def)
  ultimately have "w_promise (waiters s' ! pp_waiter p) = None"
    using assms(1) wf(1) by (auto simp: removesAndSettles_def)
  then show "case x of (k, p) \<Rightarrow> w_promise (waiters s' ! pp_waiter p) = None"
    using kp by simp
qed

lemma ras_distinct:
  "removesAndSettles s s' w \<Longrightarrow> eventIdsDistinct s' = eventIdsDistinct s"
  by (simp add: removesAndSettles_def eventIdsDistinct_def)

lemma ras_unsettledArePending:
  assumes "removesAndSettles s s' w" "eventIdsDistinct s" "unsettledArePending s"
  shows "unsettledArePending s'"
  unfolding unsettledArePending_def
proof (intro allI impI)
  fix v assume v: "v < length (waiters s')" and un: "w_promise (waiters s' ! v) = None"
  have len: "length (waiters s') = length (waiters s)" using assms(1) by (rule ras_length)
  have wlt: "w < length (waiters s)" using assms(1) by (simp add: removesAndSettles_def)
  have vw: "v \<noteq> w" using un assms(1) by (auto simp: removesAndSettles_def)
  have vlt: "v < length (waiters s)" using v len by simp
  have same: "w_promise (waiters s ! v) = None"
    using assms(1) vlt vw un by (auto simp: removesAndSettles_def)
  have ne: "w_eventId (waiters s ! v) \<noteq> w_eventId (waiters s ! w)"
    using assms(2) vw vlt wlt by (auto simp: eventIdsDistinct_def distinct_conv_nth)
  have pend: "pendingPayments s' = AList.delete (w_eventId (waiters s ! w)) (pendingPayments s)"
    using assms(1) by (simp add: removesAndSettles_def)
  have "map_of (pendingPayments s') (w_eventId (waiters s' ! v)) =
        map_of (pendingPayments s) (w_eventId (waiters s ! v))"
    using ne ras_eventId[OF assms(1) vlt] by (simp add: pend)
  then show "case map_of (pendingPayments s') (w_eventId (waiters s' ! v)) of
       None \<Rightarrow> False | Some p \<Rightarrow> pp_waiter p = v"
    using assms(3) vlt same by (auto simp: unsettledArePending_def)
qed

lemma ras_finished:
  assumes "removesAndSettles s s' w" "finishedTimersSettled s"
  shows "finishedTimersSettled s'"
  unfolding finishedTimersSettled_def
proof (intro allI impI)
  fix v assume v: "v < length (waiters s')" and t: "w_timer (waiters s' ! v) \<noteq> Armed"
  have len: "length (waiters s') = length (waiters s)" using assms(1) by (rule ras_length)
  then have vlt: "v < length (waiters s)" using v by simp
  show "w_promise (waiters s' ! v) \<noteq> None"
  proof (cases "v = w")
    case True
    then show ?thesis using assms(1) by (simp add: removesAndSettles_def)
  next
    case False
    then have "w_timer (waiters s ! v) \<noteq> Armed" "w_promise (waiters s' ! v) = w_promise (waiters s ! v)"
      using assms(1) vlt t by (auto simp: removesAndSettles_def)
    then show ?thesis using assms(2) vlt by (auto simp: finishedTimersSettled_def)
  qed
qed

text \<open>
  Ending a wait keeps the registry invariant.
\<close>

lemma ras_serviceInv:
  "removesAndSettles s s' w \<Longrightarrow> serviceInv s \<Longrightarrow> serviceInv s'"
  unfolding serviceInv_def
  using ras_wellFormed ras_pendingUnsettled ras_distinct ras_unsettledArePending ras_finished
  by blast

lemma frame_serviceInv:
  assumes "pendingPayments s' = pendingPayments s" "waiters s' = waiters s"
    "set (inflight s') \<subseteq> set (inflight s)" "serviceInv s"
  shows "serviceInv s'"
  using assms
  unfolding serviceInv_def pendingWellFormed_def pendingUnsettled_def eventIdsDistinct_def
    unsettledArePending_def finishedTimersSettled_def
  by (simp add: subset_iff) blast

lemma rejectWaiter_ras:
  assumes "w < length (waiters s)" "w_eventId (waiters s ! w) = k"
  shows "removesAndSettles s
           (rejectWaiter (s\<lparr>pendingPayments := AList.delete k (pendingPayments s)\<rparr>) w err) w"
  using assms by (auto simp: removesAndSettles_def rejectWaiter_def)

lemma confirmTransfer_ras:
  assumes "pp_waiter p < length (waiters s)" "w_eventId (waiters s ! pp_waiter p) = pp_eventId p"
  shows "removesAndSettles s (confirmTransfer s now ev p) (pp_waiter p)"
  using assms by (auto simp: removesAndSettles_def confirmTransfer_def resolveWaiter_def Let_def)

lemma transferFailed_inv:
  assumes "pp_waiter p < length (waiters s)" "w_eventId (waiters s ! pp_waiter p) = pp_eventId p"
    "serviceInv s"
  shows "serviceInv (transferFailed s ev p msg)"
  using assms(3) ras_serviceInv[OF rejectWaiter_ras[OF assms(1,2)] assms(3)]
  by (simp add: transferFailed_def)

lemma transferFinish_inv:
  assumes "pp_waiter p < length (waiters s)" "w_eventId (waiters s ! pp_waiter p) = pp_eventId p"
    "serviceInv s"
  shows "serviceInv (transferFinish s now ev p)"
proof -
  have a: "serviceInv (rejectWaiter
             (s\<lparr>pendingPayments := AList.delete (pp_eventId p) (pendingPayments s)\<rparr>)
             (pp_waiter p) err)" for err
    using ras_serviceInv[OF rejectWaiter_ras[OF assms(1,2)] assms(3)] .
  have b: "serviceInv (confirmTransfer s now ev p)"
    using ras_serviceInv[OF confirmTransfer_ras[OF assms(1,2)] assms(3)] .
  show ?thesis
    using a b transferFailed_inv[OF assms]
    by (simp add: transferFinish_def split: sum.splits option.splits)
qed

lemma findPending_in_set:
  "findPending s ev = Some p \<Longrightarrow> \<exists>k. (k, p) \<in> set (pendingPayments s)"
  by (auto simp: findPending_def split: option.splits dest: map_of_SomeD find_snd_in_set)

lemma transferArrives_inv:
  assumes "serviceInv s"
  shows "serviceInv (transferArrives s ev)"
proof (cases "ev_isTokenTransfer ev")
  case False
  then show ?thesis using assms by (simp add: transferArrives_def)
next
  case True
  show ?thesis
  proof (cases "findPending s ev")
    case None
    then show ?thesis using assms True by (simp add: transferArrives_def)
  next
    case (Some p)
    then obtain k where "(k, p) \<in> set (pendingPayments s)"
      using findPending_in_set by blast
    then have wf: "pp_waiter p < length (waiters s)"
      "w_eventId (waiters s ! pp_waiter p) = pp_eventId p"
      using assms by (auto simp: serviceInv_def pendingWellFormed_def)
    show ?thesis
    proof (cases "identityService s")
      case False
      then show ?thesis
        using True Some transferFailed_inv[OF wf assms] by (simp add: transferArrives_def)
    next
      case ident: True
      have "serviceInv (s\<lparr>inflight := inflight s @ [(ev, p)]\<rparr>)"
        using assms wf
        unfolding serviceInv_def pendingWellFormed_def pendingUnsettled_def eventIdsDistinct_def
          unsettledArePending_def finishedTimersSettled_def
        by auto
      then show ?thesis using True Some ident by (simp add: transferArrives_def)
    qed
  qed
qed

lemma transferResumes_inv:
  assumes "serviceInv s"
  shows "serviceInv (transferResumes s now i)"
proof (cases "i < length (inflight s)")
  case False
  then show ?thesis using assms by (simp add: transferResumes_def)
next
  case True
  let ?s = "s\<lparr>inflight := take i (inflight s) @ drop (Suc i) (inflight s)\<rparr>"
  have "inflight s ! i \<in> set (inflight s)" using True by simp
  then have wf: "pp_waiter (snd (inflight s ! i)) < length (waiters ?s)"
      "w_eventId (waiters ?s ! pp_waiter (snd (inflight s ! i))) = pp_eventId (snd (inflight s ! i))"
    using assms by (auto simp: serviceInv_def pendingWellFormed_def split: prod.splits)
  have "set (inflight ?s) \<subseteq> set (inflight s)"
    by (auto dest: in_set_takeD in_set_dropD)
  then have "serviceInv ?s" using assms by (intro frame_serviceInv[of ?s s]) simp_all
  then show ?thesis using True transferFinish_inv[OF wf] by (simp add: transferResumes_def)
qed

lemma map_eventId_update [simp]:
  "w_eventId x = w_eventId (ws ! w) \<Longrightarrow> map w_eventId (ws[w := x]) = map w_eventId ws"
  by (cases "w < length ws") (simp_all add: map_update list_update_same_conv list_update_beyond)

lemma timeoutFires_inv:
  assumes "serviceInv s"
  shows "serviceInv (timeoutFires s w)"
proof (cases "w < length (waiters s) \<and> w_timer (waiters s ! w) = Armed")
  case False
  then show ?thesis using assms by (auto simp: timeoutFires_def)
next
  case True
  let ?e = "w_eventId (waiters s ! w)"
  let ?s1 = "s\<lparr>waiters := (waiters s)[w := (waiters s ! w)\<lparr>w_timer := Fired\<rparr>]\<rparr>"
  show ?thesis
  proof (cases "map_of (pendingPayments s) ?e")
    case None
    have "serviceInv ?s1"
      using assms True None
      unfolding serviceInv_def pendingWellFormed_def pendingUnsettled_def eventIdsDistinct_def
          unsettledArePending_def finishedTimersSettled_def
      by (auto simp: nth_list_update split: option.splits)
    then show ?thesis using True None by (simp add: timeoutFires_def Let_def)
  next
    case (Some p)
    have "removesAndSettles s (timeoutFires s w) w"
      using True Some
      by (auto simp: timeoutFires_def removesAndSettles_def rejectWaiter_def nth_list_update Let_def)
    then show ?thesis using assms ras_serviceInv by blast
  qed
qed

lemma waitForPayment_inv:
  assumes "serviceInv s"
  shows "serviceInv (snd (waitForPayment s now cartId eventId unicityId customerPubkey amountTokens timeoutMs))"
proof (cases "config s")
  case None
  then show ?thesis using assms by (simp add: waitForPayment_def)
next
  case (Some cfg)
  show ?thesis
  proof (cases "map_of (confirmedPayments s) cartId")
    case (Some existing)
    then show ?thesis using assms \<open>config s = Some cfg\<close> by (simp add: waitForPayment_def)
  next
    case None
    define pp where "pp = \<lparr>pp_cartId = cartId, pp_eventId = eventId,
                         pp_unicityId = normalizeId unicityId,
                         pp_customerPubkey = customerPubkey, pp_amountTokens = amountTokens,
                         pp_createdAt = now, pp_waiter = length (waiters s)\<rparr>"
    define nw where "nw = \<lparr>w_eventId = eventId,
        w_timeout = (case timeoutMs of Some t \<Rightarrow> t | None \<Rightarrow> of_int (paymentTimeoutSeconds cfg) * 1000),
        w_timer = Armed, w_promise = None\<rparr>"
    define s' where "s' = s\<lparr>pendingPayments := AList.update eventId pp (pendingPayments s),
                        waiters := waiters s @ [nw]\<rparr>"
    have res: "snd (waitForPayment s now cartId eventId unicityId customerPubkey amountTokens timeoutMs) = s'"
      using None \<open>config s = Some cfg\<close> by (simp add: waitForPayment_def s'_def pp_def nw_def Let_def)
    have wf: "pendingWellFormed s" and pu: "pendingUnsettled s"
      using assms by (simp_all add: serviceInv_def)
    have mem: "(k, p) \<in> set (pendingPayments s') \<Longrightarrow> (k = eventId \<and> p = pp) \<or> (k, p) \<in> set (pendingPayments s)" for k p
      using set_update_cases[of k p eventId pp "pendingPayments s"] by (simp add: s'_def)
    have wf': "pendingWellFormed s'"
      unfolding pendingWellFormed_def
    proof (intro conjI ballI)
      fix x assume x: "x \<in> set (pendingPayments s')"
      obtain k p where kp: "x = (k, p)" by (cases x)
      from mem x kp consider "k = eventId \<and> p = pp" | "(k, p) \<in> set (pendingPayments s)" by blast
      then show "case x of (k, p) \<Rightarrow> pp_eventId p = k \<and> pp_waiter p < length (waiters s') \<and>
          w_eventId (waiters s' ! pp_waiter p) = k"
      proof cases
        case 1
        then show ?thesis using kp by (simp add: pp_def s'_def nw_def)
      next
        case 2
        then show ?thesis using kp wf by (auto simp: pendingWellFormed_def s'_def nth_append)
      qed
    next
      fix x assume x: "x \<in> set (inflight s')"
      then show "case x of (ev, p) \<Rightarrow> pp_waiter p < length (waiters s') \<and>
          w_eventId (waiters s' ! pp_waiter p) = pp_eventId p"
        using wf by (auto simp: pendingWellFormed_def s'_def nth_append)
    qed
    have pu': "pendingUnsettled s'"
      unfolding pendingUnsettled_def
    proof (intro ballI)
      fix x assume x: "x \<in> set (pendingPayments s')"
      obtain k p where kp: "x = (k, p)" by (cases x)
      from mem x kp consider "k = eventId \<and> p = pp" | "(k, p) \<in> set (pendingPayments s)" by blast
      then show "case x of (k, p) \<Rightarrow> w_promise (waiters s' ! pp_waiter p) = None"
      proof cases
        case 1
        then show ?thesis using kp by (simp add: pp_def s'_def nw_def)
      next
        case 2
        then show ?thesis using kp wf pu
          by (auto simp: pendingWellFormed_def pendingUnsettled_def s'_def nth_append)
      qed
    qed
    have rest: "unsettledArePending s' \<and> finishedTimersSettled s'" if d: "eventIdsDistinct s'"
    proof -
      from d have ds: "eventIdsDistinct s" and fresh: "eventId \<notin> w_eventId ` set (waiters s)"
        by (auto simp: eventIdsDistinct_def s'_def nw_def)
      with assms have ua: "unsettledArePending s" and ft: "finishedTimersSettled s"
        by (simp_all add: serviceInv_def)
      have "unsettledArePending s'"
        unfolding unsettledArePending_def
      proof (intro allI impI)
        fix v assume v: "v < length (waiters s')" and un: "w_promise (waiters s' ! v) = None"
        show "case map_of (pendingPayments s') (w_eventId (waiters s' ! v)) of
            None \<Rightarrow> False | Some p \<Rightarrow> pp_waiter p = v"
        proof (cases "v < length (waiters s)")
          case True
          then have "w_eventId (waiters s ! v) \<noteq> eventId" using fresh by (metis image_eqI nth_mem)
          then show ?thesis
            using True un ua by (auto simp: s'_def nth_append unsettledArePending_def update_conv')
        next
          case False
          then have "v = length (waiters s)" using v by (simp add: s'_def)
          then show ?thesis by (simp add: s'_def nw_def pp_def update_conv')
        qed
      qed
      moreover have "finishedTimersSettled s'"
        using ft by (auto simp: finishedTimersSettled_def s'_def nth_append nw_def less_Suc_eq)
      ultimately show ?thesis by simp
    qed
    show ?thesis unfolding res serviceInv_def using wf' pu' rest by blast
  qed
qed

section \<open>The registry invariant along runs\<close>

lemma rejectAll_other [simp]:
  "pendingPayments (rejectAll s ps) = pendingPayments s"
  "inflight (rejectAll s ps) = inflight s"
  "confirmedPayments (rejectAll s ps) = confirmedPayments s"
  "config (rejectAll s ps) = config s"
  "client (rejectAll s ps) = client s"
  "identityService (rejectAll s ps) = identityService s"
  "transferSubscriptionId (rejectAll s ps) = transferSubscriptionId s"
  "isInitialized (rejectAll s ps) = isInitialized s"
  "relayCalls (rejectAll s ps) = relayCalls s"
  "length (waiters (rejectAll s ps)) = length (waiters s)"
  "map w_eventId (waiters (rejectAll s ps)) = map w_eventId (waiters s)"
  by (induction ps arbitrary: s; simp add: rejectAll_def rejectWaiter_def)+

lemma rejectAll_nth:
  "v < length (waiters s) \<Longrightarrow>
     w_eventId (waiters (rejectAll s ps) ! v) = w_eventId (waiters s ! v) \<and>
     w_timeout (waiters (rejectAll s ps) ! v) = w_timeout (waiters s ! v) \<and>
     w_timer (waiters (rejectAll s ps) ! v) = w_timer (waiters s ! v) \<and>
     w_promise (waiters (rejectAll s ps) ! v) =
       (if w_promise (waiters s ! v) = None \<and> v \<in> pp_waiter ` set ps
        then Some (Rejected ShuttingDown) else w_promise (waiters s ! v))"
proof (induction ps arbitrary: s)
  case Nil
  then show ?case by (simp add: rejectAll_def)
next
  case (Cons p ps)
  have "rejectAll s (p # ps) = rejectAll (settle s (pp_waiter p) (Rejected ShuttingDown)) ps"
    by (simp add: rejectAll_def rejectWaiter_def)
  then show ?case using Cons.IH[of "settle s (pp_waiter p) (Rejected ShuttingDown)"] Cons.prems
    by auto
qed

lemma unsubscribeTransfers_fields [simp]:
  "pendingPayments (unsubscribeTransfers s) = pendingPayments s"
  "waiters (unsubscribeTransfers s) = waiters s"
  "inflight (unsubscribeTransfers s) = inflight s"
  by (simp_all add: unsubscribeTransfers_def split: option.splits)

lemma shutdown_unfold:
  "shutdown s =
     (if client s
      then (rejectAll (unsubscribeTransfers s) (map snd (pendingPayments s)))
             \<lparr>pendingPayments := [],
              relayCalls := relayCalls (unsubscribeTransfers s) @ [Disconnect],
              client := False, identityService := False, config := None, isInitialized := False\<rparr>
      else s\<lparr>identityService := False, config := None, isInitialized := False\<rparr>)"
  by (simp add: shutdown_def unsubscribeTransfers_def Let_def split: option.splits)

lemma shutdown_inv:
  assumes "serviceInv s"
  shows "serviceInv (shutdown s)"
proof (cases "client s")
  case False
  have "serviceInv (s\<lparr>identityService := False, config := None, isInitialized := False\<rparr>)"
    by (rule frame_serviceInv[OF _ _ _ assms]) simp_all
  then show ?thesis using False by (simp add: shutdown_unfold)
next
  case True
  let ?r = "rejectAll (unsubscribeTransfers s) (map snd (pendingPayments s))"
  have nth: "v < length (waiters s) \<Longrightarrow>
     w_eventId (waiters ?r ! v) = w_eventId (waiters s ! v) \<and>
     w_timer (waiters ?r ! v) = w_timer (waiters s ! v) \<and>
     w_promise (waiters ?r ! v) =
       (if w_promise (waiters s ! v) = None \<and> v \<in> pp_waiter ` snd ` set (pendingPayments s)
        then Some (Rejected ShuttingDown) else w_promise (waiters s ! v))" for v
    using rejectAll_nth[of v "unsubscribeTransfers s" "map snd (pendingPayments s)"] by simp
  have sd: "pendingPayments (shutdown s) = []" "inflight (shutdown s) = inflight s"
    "waiters (shutdown s) = waiters ?r"
    using True by (simp_all add: shutdown_unfold)
  have len: "length (waiters ?r) = length (waiters s)" by simp
  have wf: "pendingWellFormed (shutdown s)"
    unfolding pendingWellFormed_def sd
  proof (intro conjI ballI)
    fix x assume "x \<in> set (inflight s)"
    then have "case x of (ev, p) \<Rightarrow> pp_waiter p < length (waiters s) \<and>
        w_eventId (waiters s ! pp_waiter p) = pp_eventId p"
      using assms by (auto simp: serviceInv_def pendingWellFormed_def)
    then show "case x of (ev, p) \<Rightarrow> pp_waiter p < length (waiters ?r) \<and>
        w_eventId (waiters ?r ! pp_waiter p) = pp_eventId p"
      using nth len by (cases x) simp
  qed simp
  have pu: "pendingUnsettled (shutdown s)" by (simp add: pendingUnsettled_def sd)
  have rest: "unsettledArePending (shutdown s) \<and> finishedTimersSettled (shutdown s)"
    if d: "eventIdsDistinct (shutdown s)"
  proof -
    from d have "eventIdsDistinct s" by (simp add: eventIdsDistinct_def sd)
    with assms have ua: "unsettledArePending s" and ft: "finishedTimersSettled s"
      by (simp_all add: serviceInv_def)
    have settled: "w_promise (waiters ?r ! v) \<noteq> None" if v: "v < length (waiters s)" for v
    proof (cases "w_promise (waiters s ! v)")
      case (Some a)
      then show ?thesis using nth[OF v] by simp
    next
      case None
      then obtain p where "map_of (pendingPayments s) (w_eventId (waiters s ! v)) = Some p" "pp_waiter p = v"
        using ua v by (auto simp: unsettledArePending_def split: option.splits)
      then have "v \<in> pp_waiter ` snd ` set (pendingPayments s)"
        by (metis image_eqI map_of_SomeD snd_conv)
      then show ?thesis using nth[OF v] None by simp
    qed
    show ?thesis
      unfolding unsettledArePending_def finishedTimersSettled_def sd len
      using settled by blast
  qed
  show ?thesis unfolding serviceInv_def using wf pu rest by blast
qed

lemma initialize_inv:
  assumes "serviceInv s"
  shows "serviceInv (initialize s cfg)"
  by (rule frame_serviceInv[OF _ _ _ assms]) (simp_all add: initialize_def)

lemma initializeResumes_inv:
  assumes "serviceInv s"
  shows "serviceInv (snd (initializeResumes s connects sid))"
  by (rule frame_serviceInv[OF _ _ _ assms])
     (simp_all add: initializeResumes_def subscribeToTokenTransfers_def Let_def)

lemma subscribe_inv:
  assumes "serviceInv s"
  shows "serviceInv (subscribeToTokenTransfers s sid)"
  by (rule frame_serviceInv[OF _ _ _ assms]) (simp_all add: subscribeToTokenTransfers_def)

text \<open>
  Every action keeps the registry invariant, so every state a run reaches from a new service
  has it.
\<close>

lemma step_inv: "serviceInv s \<Longrightarrow> serviceInv (step s a)"
  by (cases a)
     (simp_all add: waitForPayment_inv timeoutFires_inv transferArrives_inv transferResumes_inv
        shutdown_inv initialize_inv initializeResumes_inv subscribe_inv)

lemma run_inv: "serviceInv s \<Longrightarrow> serviceInv (run s acts)"
  unfolding run_def by (induction acts arbitrary: s) (simp_all add: step_inv)

lemma newService_inv: "serviceInv newService"
  by (simp add: serviceInv_def newService_def pendingWellFormed_def pendingUnsettled_def
      unsettledArePending_def finishedTimersSettled_def)

section \<open>Settled promises keep their value\<close>

lemma promisesKept_refl: "promisesKept s s"
  by (simp add: promisesKept_def)

lemma promisesKept_trans: "promisesKept s t \<Longrightarrow> promisesKept t u \<Longrightarrow> promisesKept s u"
  unfolding promisesKept_def by (metis (no_types, lifting) le_trans less_le_trans)

lemma promisesKept_same:
  "waiters s' = waiters s \<Longrightarrow> promisesKept s s'"
  by (simp add: promisesKept_def)

lemma ras_promisesKept: "removesAndSettles s s' w \<Longrightarrow> promisesKept s s'"
  using ras_length[of s s' w] by (auto simp: promisesKept_def removesAndSettles_def)

lemma settle_promisesKept: "promisesKept s (settle s w out)"
  by (simp add: promisesKept_def)

lemma transferFailed_kept:
  assumes "pp_waiter p < length (waiters s)" "w_eventId (waiters s ! pp_waiter p) = pp_eventId p"
  shows "promisesKept s (transferFailed s ev p msg)"
  using ras_promisesKept[OF rejectWaiter_ras[OF assms]]
  by (simp add: transferFailed_def promisesKept_refl)

lemma transferFinish_kept:
  assumes "pp_waiter p < length (waiters s)" "w_eventId (waiters s ! pp_waiter p) = pp_eventId p"
  shows "promisesKept s (transferFinish s now ev p)"
proof -
  have a: "promisesKept s (rejectWaiter
             (s\<lparr>pendingPayments := AList.delete (pp_eventId p) (pendingPayments s)\<rparr>)
             (pp_waiter p) err)" for err
    using ras_promisesKept[OF rejectWaiter_ras[OF assms]] .
  have b: "promisesKept s (confirmTransfer s now ev p)"
    using ras_promisesKept[OF confirmTransfer_ras[OF assms]] .
  show ?thesis
    using a b transferFailed_kept[OF assms]
    by (simp add: transferFinish_def split: sum.splits option.splits)
qed

text \<open>
  No action changes a settled promise.
\<close>

lemma step_promisesKept:
  assumes "serviceInv s"
  shows "promisesKept s (step s a)"
proof (cases a)
  case (Wait now cartId eventId unicityId customerPubkey amountTokens timeoutMs)
  then show ?thesis
    by (auto simp: waitForPayment_def promisesKept_def nth_append Let_def split: option.splits)
next
  case (TimerFires w)
  show ?thesis
  proof (cases "w < length (waiters s) \<and> w_timer (waiters s ! w) = Armed")
    case False
    then show ?thesis using TimerFires by (auto simp: timeoutFires_def promisesKept_refl)
  next
    case True
    then show ?thesis using TimerFires
      by (auto simp: timeoutFires_def promisesKept_def rejectWaiter_def nth_list_update Let_def)
  qed
next
  case (TransferArrives ev)
  show ?thesis
  proof (cases "findPending s ev")
    case None
    then show ?thesis using TransferArrives by (simp add: transferArrives_def promisesKept_refl)
  next
    case (Some p)
    then obtain k where "(k, p) \<in> set (pendingPayments s)"
      using findPending_in_set by blast
    then have wf: "pp_waiter p < length (waiters s)"
      "w_eventId (waiters s ! pp_waiter p) = pp_eventId p"
      using assms by (auto simp: serviceInv_def pendingWellFormed_def)
    show ?thesis using TransferArrives Some transferFailed_kept[OF wf]
      by (simp add: transferArrives_def promisesKept_refl promisesKept_same)
  qed
next
  case (TransferResumes now i)
  show ?thesis
  proof (cases "i < length (inflight s)")
    case False
    then show ?thesis using TransferResumes by (simp add: transferResumes_def promisesKept_refl)
  next
    case True
    let ?s = "s\<lparr>inflight := take i (inflight s) @ drop (Suc i) (inflight s)\<rparr>"
    have "inflight s ! i \<in> set (inflight s)" using True by simp
    then have wf: "pp_waiter (snd (inflight s ! i)) < length (waiters ?s)"
      "w_eventId (waiters ?s ! pp_waiter (snd (inflight s ! i))) = pp_eventId (snd (inflight s ! i))"
      using assms by (auto simp: serviceInv_def pendingWellFormed_def split: prod.splits)
    have "promisesKept s ?s" by (simp add: promisesKept_same)
    then have "promisesKept s (transferFinish ?s now (fst (inflight s ! i)) (snd (inflight s ! i)))"
      using transferFinish_kept[OF wf] promisesKept_trans by blast
    then show ?thesis
      using TransferResumes True by (simp add: transferResumes_def)
  qed
next
  case Shutdown
  show ?thesis
  proof (cases "client s")
    case False
    then show ?thesis using Shutdown by (simp add: shutdown_unfold promisesKept_same)
  next
    case True
    have "v < length (waiters s) \<Longrightarrow> w_promise (waiters s ! v) \<noteq> None \<Longrightarrow>
        w_promise (waiters (rejectAll (unsubscribeTransfers s) (map snd (pendingPayments s))) ! v) =
        w_promise (waiters s ! v)" for v
      using rejectAll_nth[of v "unsubscribeTransfers s" "map snd (pendingPayments s)"] by simp
    then show ?thesis using Shutdown True by (simp add: shutdown_unfold promisesKept_def)
  qed
next
  case (Initialize cfg)
  then show ?thesis
    by (simp add: initialize_def promisesKept_same)
next
  case (ConnectSettles connects sid)
  then show ?thesis
    by (simp add: initializeResumes_def subscribeToTokenTransfers_def Let_def promisesKept_same)
next
  case (Reconnected sid)
  then show ?thesis by (simp add: subscribeToTokenTransfers_def promisesKept_same)
qed

lemma run_promisesKept: "serviceInv s \<Longrightarrow> promisesKept s (run s acts)"
proof (induction acts arbitrary: s)
  case Nil
  then show ?case by (simp add: run_def promisesKept_refl)
next
  case (Cons a acts)
  have "run s (a # acts) = run (step s a) acts" by (simp add: run_def)
  then show ?case
    using Cons.IH[OF step_inv[OF Cons.prems]] step_promisesKept[OF Cons.prems] promisesKept_trans
    by metis
qed

lemma run_append: "run s (xs @ ys) = run (run s xs) ys"
  by (simp add: run_def)

lemma promiseOf_kept:
  "promisesKept s s' \<Longrightarrow> promiseOf s w = Some out \<Longrightarrow> promiseOf s' w = Some out"
  by (auto simp: promisesKept_def promiseOf_def split: if_splits)

section \<open>One wait against its timer and its transfer\<close>

lemma findPending_wf:
  assumes "serviceInv s" "findPending s ev = Some p"
  shows "pp_waiter p < length (waiters s)"
    "w_eventId (waiters s ! pp_waiter p) = pp_eventId p"
    "w_promise (waiters s ! pp_waiter p) = None"
proof -
  obtain k where "(k, p) \<in> set (pendingPayments s)"
    using findPending_in_set[OF assms(2)] by blast
  then show "pp_waiter p < length (waiters s)"
    "w_eventId (waiters s ! pp_waiter p) = pp_eventId p"
    "w_promise (waiters s ! pp_waiter p) = None"
    using assms(1) by (auto simp: serviceInv_def pendingWellFormed_def pendingUnsettled_def)
qed

lemma unsettled_timeout:
  assumes "serviceInv s" "eventIdsDistinct s" "w < length (waiters s)" "promiseOf s w = None"
  shows "w_timer (waiters s ! w) = Armed"
    "promiseOf (timeoutFires s w) w =
       Some (Rejected (PaymentTimeout (w_timeout (waiters s ! w)) (w_eventId (waiters s ! w))))"
    "map_of (pendingPayments (timeoutFires s w)) (w_eventId (waiters s ! w)) = None"
proof -
  have un: "w_promise (waiters s ! w) = None" using assms(3,4) by (simp add: promiseOf_def)
  have ua: "unsettledArePending s" and ft: "finishedTimersSettled s"
    using assms(1,2) by (simp_all add: serviceInv_def)
  show armed: "w_timer (waiters s ! w) = Armed"
    using ft assms(3) un by (auto simp: finishedTimersSettled_def)
  obtain p where p: "map_of (pendingPayments s) (w_eventId (waiters s ! w)) = Some p"
    using ua assms(3) un by (auto simp: unsettledArePending_def split: option.splits)
  show "promiseOf (timeoutFires s w) w =
       Some (Rejected (PaymentTimeout (w_timeout (waiters s ! w)) (w_eventId (waiters s ! w))))"
    using assms(3) armed p un
    by (simp add: timeoutFires_def Let_def promiseOf_def rejectWaiter_def)
  show "map_of (pendingPayments (timeoutFires s w)) (w_eventId (waiters s ! w)) = None"
    using assms(3) armed p
    by (simp add: timeoutFires_def Let_def rejectWaiter_def delete_conv')
qed

section \<open>The wait window of confirm_payment\<close>

lemma effectiveWaitSeconds_range:
  "0 \<le> effectiveWaitSeconds ws \<and> effectiveWaitSeconds ws \<le> 120"
  by (simp add: effectiveWaitSeconds_def)

lemma effectiveWaitSeconds_cases:
  "effectiveWaitSeconds None = 0"
  "w < 0 \<Longrightarrow> effectiveWaitSeconds (Some w) = 0"
  "0 \<le> w \<Longrightarrow> w \<le> 120 \<Longrightarrow> effectiveWaitSeconds (Some w) = w"
  "120 < w \<Longrightarrow> effectiveWaitSeconds (Some w) = 120"
  by (simp_all add: effectiveWaitSeconds_def)

lemma confirmWait_timeout:
  assumes "confirmWait st env cartId order eventId unicityId customerPubkey amountTokens seconds = (Waiting w order' eventId' seconds', st')"
  shows "w = length (waiters (nostrService st)) \<and> seconds' = seconds \<and> eventId' = eventId \<and>
         waiters (nostrService st') = waiters (nostrService st) @
            [\<lparr>w_eventId = eventId, w_timeout = seconds * 1000, w_timer = Armed, w_promise = None\<rparr>]"
  using assms
  by (auto simp: confirmWait_def waitForPayment_def confirmTimedOut_def confirmPaid_def Let_def
      split: option.splits prod.splits wait_result.splits)

lemma confirmReRegister_timeout:
  assumes "confirmReRegister st env cartId order seconds = (Waiting w order' eventId seconds', st')"
  shows "w = length (waiters (nostrService st)) \<and> seconds' = seconds \<and>
         waiters (nostrService st') = waiters (nostrService st) @
            [\<lparr>w_eventId = eventId, w_timeout = seconds * 1000, w_timer = Armed, w_promise = None\<rparr>]"
  using assms unfolding confirmReRegister_def
  by (auto split: option.splits if_splits sum.splits prod.splits dest!: confirmWait_timeout)

lemma confirmStart_timeout:
  assumes "confirmStart st env cartId waitSeconds = (Waiting w order eventId seconds, st')"
  shows "w = length (waiters (nostrService st)) \<and> seconds = effectiveWaitSeconds waitSeconds \<and>
         effectiveWaitSeconds waitSeconds \<noteq> 0 \<and>
         waiters (nostrService st') = waiters (nostrService st) @
            [\<lparr>w_eventId = eventId, w_timeout = effectiveWaitSeconds waitSeconds * 1000, w_timer = Armed, w_promise = None\<rparr>]"
  using assms unfolding confirmStart_def Let_def
  by (auto simp: confirmPaid_def split: option.splits if_splits prod.splits
       dest!: confirmWait_timeout confirmReRegister_timeout)

section \<open>Checkout, tracker and fast path: basic facts\<close>

lemma enter_locked:
  "cartId \<in> checkoutLocks st \<Longrightarrow>
     checkoutEnter st cartId unicityId = (Returned CheckoutInProgress, st)"
  by (simp add: checkoutEnter_def checkoutAcquire_def)

lemma checkInventory_Cons:
  "checkInventory gv (line # rest) =
     (case gv (cl_variantId line) of
        Inl thrown \<Rightarrow> Inl thrown
      | Inr variant \<Rightarrow>
          (case checkInventory gv rest of
             Inl thrown \<Rightarrow> Inl thrown
           | Inr errors \<Rightarrow> Inr (inventoryIssue line variant @ errors)))"
  by (simp add: inventoryIssue_def split: sum.splits option.splits)

lemma drive_return [simp]:
  "checkoutDrive (snd (checkoutReturn st cartId response)) env
     (fst (checkoutReturn st cartId response)) = (response, checkoutRelease st cartId)"
  by (simp add: checkoutReturn_def)

lemma drive_after:
  "checkoutDrive (snd (checkoutAfterInventory st cartId unicityId cart errors)) env
     (fst (checkoutAfterInventory st cartId unicityId cart errors)) =
   (if errors \<noteq> [] then (InventoryIssues errors, checkoutRelease st cartId)
    else
      (case existingOrderGuard (orderStore st) cartId of
         Some response \<Rightarrow> (response, checkoutRelease st cartId)
       | None \<Rightarrow>
           if \<not> isConnected (nostrService st)
           then (ServiceNotConnected, checkoutRelease st cartId)
           else
             (case sendPaymentRequest (nostrService st) (env_lookup env) (env_issue env)
                     cartId unicityId (c_subtotalCents cart) of
                Inl err \<Rightarrow> (SendFailed err, checkoutRelease st cartId)
              | Inr paymentRequest \<Rightarrow>
                  (RequestSent paymentRequest,
                   checkoutRelease (recordCheckout st env cartId unicityId cart paymentRequest)
                     cartId))))"
  by (simp add: checkoutAfterInventory_def split: option.splits sum.splits)

lemma drive_inventory:
  "checkoutDrive (snd (checkoutInventory st cartId unicityId cart lines errors)) env
     (fst (checkoutInventory st cartId unicityId cart lines errors)) =
   (case checkInventory (env_getVariant env) lines of
      Inl thrown \<Rightarrow> (CheckoutError thrown, checkoutRelease st cartId)
    | Inr found \<Rightarrow>
        checkoutDrive (snd (checkoutAfterInventory st cartId unicityId cart (errors @ found))) env
          (fst (checkoutAfterInventory st cartId unicityId cart (errors @ found))))"
proof (induction lines arbitrary: errors)
  case Nil
  then show ?case by (simp add: checkoutInventory_def)
next
  case (Cons line rest)
  show ?case
  proof (cases "env_getVariant env (cl_variantId line)")
    case (Inl thrown)
    then show ?thesis
      by (simp add: checkInventory_Cons checkoutInventory_def del: checkInventory.simps)
  next
    case (Inr variant)
    have "checkoutDrive (snd (checkoutInventory st cartId unicityId cart (line # rest) errors)) env
            (fst (checkoutInventory st cartId unicityId cart (line # rest) errors)) =
          checkoutDrive
            (snd (checkoutInventory st cartId unicityId cart rest
                    (errors @ inventoryIssue line variant))) env
            (fst (checkoutInventory st cartId unicityId cart rest
                    (errors @ inventoryIssue line variant)))"
      using Inr by (simp add: checkoutInventory_def)
    then show ?thesis
      using Inr Cons.IH[of "errors @ inventoryIssue line variant"]
      by (simp add: checkInventory_Cons del: checkInventory.simps split: sum.splits)
  qed
qed

text \<open>
  An invocation during whose awaits nothing else runs returns, and what it returns is the
  lock around \<open>checkoutBody\<close>.
\<close>

lemma checkout_unfold:
  "checkout_with_unicity st env cartId unicityId =
     (case checkoutAcquire st cartId of
        None \<Rightarrow> (CheckoutInProgress, st)
      | Some locked \<Rightarrow>
          (case checkoutBody locked env cartId unicityId of
             (response, st') \<Rightarrow> (response, checkoutRelease st' cartId)))"
proof (cases "cartId \<in> checkoutLocks st")
  case True
  then show ?thesis
    by (simp add: checkout_with_unicity_def enter_locked checkoutAcquire_def)
next
  case False
  let ?l = "st\<lparr>checkoutLocks := insert cartId (checkoutLocks st)\<rparr>"
  have e: "checkoutEnter st cartId unicityId =
             (case getCart (cartStore ?l) cartId of
                None \<Rightarrow> checkoutReturn ?l cartId CartNotFound
              | Some cart \<Rightarrow>
                  if c_lines cart = [] then checkoutReturn ?l cartId CartEmpty
                  else checkoutInventory ?l cartId unicityId cart (c_lines cart) [])"
    using False by (simp add: checkoutEnter_def checkoutAcquire_def)
  have w: "(case checkoutAcquire st cartId of
              None \<Rightarrow> (CheckoutInProgress, st)
            | Some locked \<Rightarrow>
                (case checkoutBody locked env cartId unicityId of
                   (response, st') \<Rightarrow> (response, checkoutRelease st' cartId))) =
             (fst (checkoutBody ?l env cartId unicityId),
              checkoutRelease (snd (checkoutBody ?l env cartId unicityId)) cartId)"
    using False by (simp add: checkoutAcquire_def split: prod.splits)
  show ?thesis
  proof (cases "getCart (cartStore ?l) cartId")
    case None
    then show ?thesis unfolding checkout_with_unicity_def e w by (simp add: checkoutBody_def)
  next
    case (Some cart)
    show ?thesis
    proof (cases "c_lines cart = []")
      case True
      then show ?thesis unfolding checkout_with_unicity_def e w using Some
        by (simp add: checkoutBody_def)
    next
      case lines: False
      show ?thesis
      proof (cases "checkInventory (env_getVariant env) (c_lines cart)")
        case (Inl thrown)
        then show ?thesis unfolding checkout_with_unicity_def e w using Some lines
          by (simp add: checkoutBody_def drive_inventory)
      next
        case (Inr found)
        then show ?thesis unfolding checkout_with_unicity_def e w using Some lines
          by (simp add: checkoutBody_def drive_inventory drive_after
              split: option.splits sum.splits)
      qed
    qed
  qed
qed

lemma checkoutBody_locks:
  "checkoutLocks (snd (checkoutBody st env cartId unicityId)) = checkoutLocks st"
  by (simp add: checkoutBody_def recordCheckout_def Let_def
      split: option.splits sum.splits)

lemma checkoutBody_error_unchanged:
  "checkoutIsError (fst (checkoutBody st env cartId unicityId)) \<Longrightarrow>
     snd (checkoutBody st env cartId unicityId) = st"
  by (auto simp: checkoutBody_def split: option.splits sum.splits if_splits)

lemma checkout_in_progress:
  "cartId \<in> checkoutLocks st \<Longrightarrow>
     checkout_with_unicity st env cartId unicityId = (CheckoutInProgress, st)"
  by (simp add: checkout_unfold checkoutAcquire_def)

lemma checkout_releases:
  "cartId \<notin> checkoutLocks st \<Longrightarrow>
     checkoutLocks (snd (checkout_with_unicity st env cartId unicityId)) = checkoutLocks st"
proof -
  assume free: "cartId \<notin> checkoutLocks st"
  let ?l = "st\<lparr>checkoutLocks := insert cartId (checkoutLocks st)\<rparr>"
  obtain r st' where b: "checkoutBody ?l env cartId unicityId = (r, st')"
    by (cases "checkoutBody ?l env cartId unicityId")
  have "checkoutLocks st' = insert cartId (checkoutLocks st)"
    using checkoutBody_locks[of ?l env cartId unicityId] b by simp
  then show ?thesis
    using free b by (simp add: checkout_unfold checkoutAcquire_def checkoutRelease_def)
qed

lemma checkout_stores:
  "cartId \<notin> checkoutLocks st \<Longrightarrow>
     orderStore (snd (checkout_with_unicity st env cartId unicityId)) =
       orderStore (snd (checkoutBody (st\<lparr>checkoutLocks := insert cartId (checkoutLocks st)\<rparr>) env cartId unicityId)) \<and>
     cartStore (snd (checkout_with_unicity st env cartId unicityId)) =
       cartStore (snd (checkoutBody (st\<lparr>checkoutLocks := insert cartId (checkoutLocks st)\<rparr>) env cartId unicityId)) \<and>
     fst (checkout_with_unicity st env cartId unicityId) =
       fst (checkoutBody (st\<lparr>checkoutLocks := insert cartId (checkoutLocks st)\<rparr>) env cartId unicityId)"
  by (auto simp: checkout_unfold checkoutAcquire_def checkoutRelease_def split: prod.splits)

lemma checkout_error_unchanged:
  assumes "checkoutIsError (fst (checkout_with_unicity st env cartId unicityId))"
  shows "snd (checkout_with_unicity st env cartId unicityId) = st"
proof (cases "cartId \<in> checkoutLocks st")
  case True
  then show ?thesis by (simp add: checkout_in_progress)
next
  case False
  let ?l = "st\<lparr>checkoutLocks := insert cartId (checkoutLocks st)\<rparr>"
  have "checkoutIsError (fst (checkoutBody ?l env cartId unicityId))"
    using assms checkout_stores[OF False] by simp
  then have "snd (checkoutBody ?l env cartId unicityId) = ?l"
    by (rule checkoutBody_error_unchanged)
  then show ?thesis using False
    by (auto simp: checkout_unfold checkoutAcquire_def checkoutRelease_def split: prod.splits)
qed

lemma checkoutBody_sent:
  assumes "checkoutBody st env cartId unicityId = (RequestSent pr, st')"
  shows "\<exists>cart. getCart (cartStore st) cartId = Some cart \<and>
      sendPaymentRequest (nostrService st) (env_lookup env) (env_issue env) cartId unicityId
         (c_subtotalCents cart) = Inr pr \<and>
      st' = recordCheckout st env cartId unicityId cart pr"
  using assms
  by (auto simp: checkoutBody_def existingOrderGuard_def split: option.splits sum.splits if_splits)

lemma recordCheckout_order:
  assumes "getCart (cartStore st) cartId = Some cart"
  shows "getOrderByCartId (orderStore (recordCheckout st env cartId unicityId cart pr)) cartId =
      Some \<lparr>o_id = env_orderUuid env, o_cartId = cartId, o_status = AwaitingPayment,
            o_totalAmountCents = c_subtotalCents cart, o_currency = c_currency cart,
            o_paymentEventId = Some (pr_eventId pr), o_unicityId = Some unicityId,
            o_createdAt = env_orderTime env, o_updatedAt = env_awaitingTime env, o_paidAt = None\<rparr>"
    "isCartLocked (cartStore (recordCheckout st env cartId unicityId cart pr)) cartId"
  using assms
  by (simp_all add: recordCheckout_def trackOrder_def markAwaitingPayment_def lockCartForCheckout_def
      getOrderByCartId_def isCartLocked_def getCart_def Let_def update_conv')

lemma updateOrderStatus_existing:
  assumes "map_of os cartId = Some order"
  shows "updateOrderStatus os now paidNow cartId status =
     (Some (order\<lparr>o_status := status, o_updatedAt := now,
                   o_paidAt := (if status = Paid then Some paidNow else o_paidAt order)\<rparr>),
      AList.update cartId
        (order\<lparr>o_status := status, o_updatedAt := now,
               o_paidAt := (if status = Paid then Some paidNow else o_paidAt order)\<rparr>) os)"
  using assms by (simp add: updateOrderStatus_def Let_def)

lemma markAwaitingPayment_existing:
  assumes "map_of os cartId = Some order"
  shows "markAwaitingPayment os now cartId eventId unicityId =
     (Some (order\<lparr>o_status := AwaitingPayment, o_paymentEventId := Some eventId,
                   o_unicityId := Some unicityId, o_updatedAt := now\<rparr>),
      AList.update cartId
        (order\<lparr>o_status := AwaitingPayment, o_paymentEventId := Some eventId,
               o_unicityId := Some unicityId, o_updatedAt := now\<rparr>) os)"
  using assms by (simp add: markAwaitingPayment_def Let_def)

lemma waitForPayment_fast_path:
  assumes "config s = Some cfg" "map_of (confirmedPayments s) cartId = Some existing"
  shows "waitForPayment s now cartId eventId unicityId customerPubkey amountTokens timeoutMs =
           (WaitReturned existing, s)"
  using assms by (simp add: waitForPayment_def)

section \<open>The example runs, evaluated\<close>

lemma run_oneWait: "run newService oneWait = waitingService"
  by (simp add: run_def oneWait_def newService_def initialize_def initializeResumes_def
      subscribeToTokenTransfers_def
      waitForPayment_def exampleConfig_def normalizeId_def waitingService_def Let_def)

lemma run_overlapping:
  "run newService overlappingWaits =
     waitingService\<lparr>pendingPayments := [],
        waiters := [\<lparr>w_eventId = ''evt-1'', w_timeout = 5000, w_timer = Fired,
                      w_promise = Some (Rejected (PaymentTimeout 5000 ''evt-1''))\<rparr>,
                    \<lparr>w_eventId = ''evt-1'', w_timeout = 9000, w_timer = Fired,
                      w_promise = None\<rparr>]\<rparr>"
  unfolding overlappingWaits_def run_append run_oneWait
  by (simp add: run_def waitingService_def waitForPayment_def exampleConfig_def normalizeId_def
       timeoutFires_def rejectWaiter_def settle_def Let_def)

section \<open>The transfer handler\<close>

lemma reachable_inv: "serviceInv (run newService acts)"
  by (rule run_inv[OF newService_inv])

lemma transferFailed_inflight [simp]: "inflight (transferFailed s ev p msg) = inflight s"
  by (simp add: transferFailed_def rejectWaiter_def)

lemma transferFailed_confirmed [simp]:
  "confirmedPayments (transferFailed s ev p msg) = confirmedPayments s"
  by (simp add: transferFailed_def rejectWaiter_def)

lemma promiseOf_settle:
  "w < length (waiters s) \<Longrightarrow>
     promiseOf (settle s w out) w =
       (case promiseOf s w of None \<Rightarrow> Some out | Some earlier \<Rightarrow> Some earlier)"
  by (simp add: promiseOf_def settle_def split: option.splits)

lemma promiseOf_frame:
  "waiters s' = waiters s \<Longrightarrow> promiseOf s' w = promiseOf s w"
  by (simp add: promiseOf_def)

lemma promiseOf_clearTimeout [simp]: "promiseOf (clearTimeout s w) v = promiseOf s v"
  by (simp add: promiseOf_def clearTimeout_def nth_list_update)

lemma finish_mismatch:
  assumes "ev_tokenJson ev = Inr json" "truthy json" "ev_finalization ev = Inr fin"
    "ev_amount ev = Some a" "a \<noteq> pp_amountTokens p"
  shows "transferFinish s now ev p =
           rejectWaiter (s\<lparr>pendingPayments := AList.delete (pp_eventId p) (pendingPayments s)\<rparr>)
             (pp_waiter p) (AmountMismatch a (pp_amountTokens p))"
  using assms by (simp add: transferFinish_def)

lemma finish_confirm:
  assumes "ev_tokenJson ev = Inr json" "truthy json" "ev_finalization ev = Inr fin"
    "ev_amount ev = None \<or> ev_amount ev = Some (pp_amountTokens p)"
  shows "transferFinish s now ev p = confirmTransfer s now ev p"
  using assms by (auto simp: transferFinish_def)

lemma mismatch_never_confirms:
  assumes "ev_amount ev = Some a" "a \<noteq> pp_amountTokens p"
  shows "confirmedPayments (transferFinish s now ev p) = confirmedPayments s"
  using assms by (simp add: transferFinish_def rejectWaiter_def split: sum.splits)

lemma rejected_promise:
  assumes "pp_waiter p < length (waiters s)"
  shows "promiseOf (rejectWaiter
            (s\<lparr>pendingPayments := AList.delete (pp_eventId p) (pendingPayments s)\<rparr>)
            (pp_waiter p) err) (pp_waiter p) =
         (case promiseOf s (pp_waiter p) of None \<Rightarrow> Some (Rejected err)
          | Some earlier \<Rightarrow> Some earlier)"
proof -
  let ?s = "s\<lparr>pendingPayments := AList.delete (pp_eventId p) (pendingPayments s)\<rparr>"
  have "promiseOf (settle ?s (pp_waiter p) (Rejected err)) (pp_waiter p) =
          (case promiseOf ?s (pp_waiter p) of None \<Rightarrow> Some (Rejected err)
           | Some earlier \<Rightarrow> Some earlier)"
    by (rule promiseOf_settle) (use assms in simp)
  moreover have "promiseOf ?s (pp_waiter p) = promiseOf s (pp_waiter p)"
    by (rule promiseOf_frame) simp
  ultimately show ?thesis by (simp add: rejectWaiter_def)
qed

lemma confirmed_promise:
  assumes "pp_waiter p < length (waiters s)"
  shows "promiseOf (confirmTransfer s now ev p) (pp_waiter p) =
         (case promiseOf s (pp_waiter p) of
            None \<Rightarrow> Some (Resolved \<lparr>cp_cartId = pp_cartId p, cp_requestEventId = pp_eventId p,
                                     cp_transferEventId = ev_id ev, cp_confirmedAt = now\<rparr>)
          | Some earlier \<Rightarrow> Some earlier)"
proof -
  let ?c = "\<lparr>cp_cartId = pp_cartId p, cp_requestEventId = pp_eventId p,
            cp_transferEventId = ev_id ev, cp_confirmedAt = now\<rparr>"
  let ?s = "clearTimeout (s\<lparr>confirmedPayments :=
                AList.update (pp_cartId p) ?c (confirmedPayments s),
              pendingPayments := AList.delete (pp_eventId p) (pendingPayments s)\<rparr>) (pp_waiter p)"
  have len: "pp_waiter p < length (waiters ?s)"
    using assms by (simp add: clearTimeout_def)
  have "promiseOf (settle ?s (pp_waiter p) (Resolved ?c)) (pp_waiter p) =
          (case promiseOf ?s (pp_waiter p) of None \<Rightarrow> Some (Resolved ?c)
           | Some earlier \<Rightarrow> Some earlier)"
    by (rule promiseOf_settle[OF len])
  moreover have "promiseOf ?s (pp_waiter p) = promiseOf s (pp_waiter p)"
    by (simp add: promiseOf_def)
  ultimately show ?thesis by (simp add: confirmTransfer_def resolveWaiter_def Let_def)
qed

lemma transferFailed_promise:
  assumes "pp_waiter p < length (waiters s)"
  shows "promiseOf (transferFailed s ev p msg) (pp_waiter p) =
           (if replyToEventId ev \<noteq> None
            then (case promiseOf s (pp_waiter p) of None \<Rightarrow> Some (Rejected (PaymentFailed msg))
                  | Some earlier \<Rightarrow> Some earlier)
            else promiseOf s (pp_waiter p))"
  using rejected_promise[OF assms] by (simp add: transferFailed_def)

text \<open>
  What a suspended invocation of the handler holds belongs to a wait of the run.
\<close>

lemma inflight_wf:
  assumes "serviceInv s" "i < length (inflight s)" "inflight s ! i = (ev, p)"
  shows "pp_waiter p < length (waiters s)"
proof -
  have "(ev, p) \<in> set (inflight s)" using assms(2,3) by (metis nth_mem)
  then show ?thesis using assms(1) by (auto simp: serviceInv_def pendingWellFormed_def)
qed

lemma resume_unfold:
  assumes "i < length (inflight s)" "inflight s ! i = (ev, p)"
  shows "transferResumes s now i =
           transferFinish (s\<lparr>inflight := take i (inflight s) @ drop (Suc i) (inflight s)\<rparr>)
             now ev p"
  using assms by (simp add: transferResumes_def)

section \<open>Life cycle of the service\<close>

lemma transferFinish_lifecycle [simp]:
  "isInitialized (transferFinish s now ev p) = isInitialized s"
  "client (transferFinish s now ev p) = client s"
  "identityService (transferFinish s now ev p) = identityService s"
  "config (transferFinish s now ev p) = config s"
  by (simp_all add: transferFinish_def transferFailed_def confirmTransfer_def resolveWaiter_def
      rejectWaiter_def Let_def split: sum.splits option.splits)

lemma delete_nonempty: "AList.delete k al \<noteq> [] \<Longrightarrow> al \<noteq> []"
  by auto

lemma transferFailed_nonempty:
  "pendingPayments (transferFailed s ev p msg) \<noteq> [] \<Longrightarrow> pendingPayments s \<noteq> []"
  by (auto simp: transferFailed_def rejectWaiter_def split: if_splits)

lemma transferFinish_nonempty:
  "pendingPayments (transferFinish s now ev p) \<noteq> [] \<Longrightarrow> pendingPayments s \<noteq> []"
  by (auto simp: transferFinish_def transferFailed_def confirmTransfer_def resolveWaiter_def
      rejectWaiter_def Let_def split: sum.splits option.splits if_splits)

lemma step_lifecycle: "lifecycleInv s \<Longrightarrow> lifecycleInv (step s a)"
proof (cases a)
  case (Wait now cartId eventId unicityId customerPubkey amountTokens timeoutMs)
  assume "lifecycleInv s"
  then show ?thesis using Wait
    by (auto simp: lifecycleInv_def waitForPayment_def Let_def split: option.splits)
next
  case (TimerFires w)
  assume "lifecycleInv s"
  then show ?thesis using TimerFires
    by (auto simp: lifecycleInv_def timeoutFires_def rejectWaiter_def Let_def split: if_splits)
next
  case (TransferArrives ev)
  assume "lifecycleInv s"
  then show ?thesis using TransferArrives
    by (auto simp: lifecycleInv_def transferArrives_def transferFailed_def rejectWaiter_def
        split: option.splits if_splits)
next
  case (TransferResumes now i)
  assume "lifecycleInv s"
  then show ?thesis using TransferResumes
      transferFinish_nonempty[of "s\<lparr>inflight := take i (inflight s) @ drop (Suc i) (inflight s)\<rparr>"
        now "fst (inflight s ! i)" "snd (inflight s ! i)"]
    by (auto simp: lifecycleInv_def transferResumes_def)
next
  case Shutdown
  assume "lifecycleInv s"
  then show ?thesis using Shutdown by (auto simp: lifecycleInv_def shutdown_unfold)
next
  case (Initialize cfg)
  assume "lifecycleInv s"
  then show ?thesis using Initialize
    by (auto simp: lifecycleInv_def initialize_def)
next
  case (ConnectSettles connects sid)
  assume "lifecycleInv s"
  then show ?thesis using ConnectSettles
    by (auto simp: lifecycleInv_def initializeResumes_def subscribeToTokenTransfers_def Let_def)
next
  case (Reconnected sid)
  assume "lifecycleInv s"
  then show ?thesis using Reconnected
    by (auto simp: lifecycleInv_def subscribeToTokenTransfers_def)
qed

lemma reachable_lifecycle: "lifecycleInv (run newService acts)"
proof -
  have "lifecycleInv s \<Longrightarrow> lifecycleInv (run s acts)" for s
    unfolding run_def by (induction acts arbitrary: s) (simp_all add: step_lifecycle)
  then show ?thesis by (simp add: lifecycleInv_def newService_def)
qed

lemma shutdown_idempotent: "shutdown (shutdown s) = shutdown s"
  by (simp add: shutdown_unfold)

lemma shutdown_calls:
  assumes "client s" "transferSubscriptionId s = Some sid" "truthy sid"
  shows "pendingPayments (shutdown s) = []"
    "relayCalls (shutdown s) = relayCalls s @ [Unsubscribe sid, Disconnect]"
    "transferSubscriptionId (shutdown s) = None"
    "\<not> client (shutdown s)" "\<not> isInitialized (shutdown s)"
  using assms by (simp_all add: shutdown_unfold unsubscribeTransfers_def)

lemma shutdown_promise:
  assumes "client s" "serviceInv s" "(k, p) \<in> set (pendingPayments s)"
  shows "promiseOf (shutdown s) (pp_waiter p) = Some (Rejected ShuttingDown)"
proof -
  have wf: "pp_waiter p < length (waiters s)" "w_promise (waiters s ! pp_waiter p) = None"
    using assms(2,3) by (auto simp: serviceInv_def pendingWellFormed_def pendingUnsettled_def)
  have "pp_waiter p \<in> pp_waiter ` set (map snd (pendingPayments s))"
    using assms(3) by force
  then have "w_promise (waiters (rejectAll (unsubscribeTransfers s) (map snd (pendingPayments s)))
                ! pp_waiter p) = Some (Rejected ShuttingDown)"
    using rejectAll_nth[of "pp_waiter p" "unsubscribeTransfers s" "map snd (pendingPayments s)"] wf
    by simp
  then show ?thesis using assms(1) wf(1) by (simp add: shutdown_unfold promiseOf_def)
qed

text \<open>
  In a state a run reaches, a transfer can only be matched while the service holds its
  identity service: entries are registered on a configured service only, and \<open>shutdown\<close>
  drops them together with the configuration.
\<close>

lemma matched_identity:
  assumes "findPending (run newService acts) ev = Some p"
  shows "identityService (run newService acts)"
proof -
  have "pendingPayments (run newService acts) \<noteq> []"
    using findPending_in_set[OF assms] by auto
  then show ?thesis
    using reachable_lifecycle[of acts] by (simp add: lifecycleInv_def)
qed

text \<open>
  In a state a run reaches, the handler of a matched transfer changes nothing before its
  first \<open>await\<close>: it suspends holding its match.
\<close>

lemma arrival_suspends:
  assumes "findPending (run newService acts) ev = Some p" "ev_isTokenTransfer ev"
  shows "transferArrives (run newService acts) ev =
           (run newService acts)\<lparr>inflight := inflight (run newService acts) @ [(ev, p)]\<rparr>"
proof -
  have "identityService (run newService acts)"
    using assms(1) by (rule matched_identity)
  then show ?thesis using assms by (simp add: transferArrives_def)
qed

section \<open>Waits that lost their entry\<close>

lemma settle_orphaned:
  assumes "orphaned s w" "v \<noteq> w" "set (pendingPayments s') \<subseteq> set (pendingPayments s)"
    "set (inflight s') \<subseteq> set (inflight s)" "waiters s' = waiters s"
  shows "orphaned (settle s' v out) w"
  using assms unfolding orphaned_def by (auto simp: subset_iff)

lemma clear_settle_orphaned:
  assumes "orphaned s w" "v \<noteq> w" "set (pendingPayments s') \<subseteq> set (pendingPayments s)"
    "set (inflight s') \<subseteq> set (inflight s)" "waiters s' = waiters s"
  shows "orphaned (settle (clearTimeout s' v) v out) w"
  using assms unfolding orphaned_def by (auto simp: subset_iff)

lemma frame_orphaned:
  assumes "orphaned s w" "set (pendingPayments s') \<subseteq> set (pendingPayments s)"
    "set (inflight s') \<subseteq> set (inflight s)" "waiters s' = waiters s"
  shows "orphaned s' w"
  using assms unfolding orphaned_def by (auto simp: subset_iff)

lemma delete_subset: "set (AList.delete k al) \<subseteq> set al"
  by (auto simp: AList.delete_eq)

lemma transferFinish_orphaned:
  assumes "orphaned s w" "pp_waiter p \<noteq> w"
  shows "orphaned (transferFinish s now ev p) w"
proof -
  have a: "orphaned (rejectWaiter (s\<lparr>pendingPayments := AList.delete (pp_eventId p) (pendingPayments s)\<rparr>) (pp_waiter p) err) w" for err
    unfolding rejectWaiter_def
    by (rule settle_orphaned[OF assms]) (simp_all add: delete_subset)
  have b: "orphaned (confirmTransfer s now ev p) w"
    unfolding confirmTransfer_def resolveWaiter_def Let_def
    by (rule clear_settle_orphaned[OF assms]) (simp_all add: delete_subset)
  show ?thesis using a b assms(1)
    by (simp add: transferFinish_def transferFailed_def split: sum.splits option.splits)
qed

lemma rejectAll_orphaned:
  assumes "orphaned s w" "w \<notin> pp_waiter ` set ps"
  shows "orphaned (rejectAll s ps) w"
  using assms
proof (induction ps arbitrary: s)
  case Nil
  then show ?case by (simp add: rejectAll_def)
next
  case (Cons p ps)
  have "orphaned (settle s (pp_waiter p) (Rejected ShuttingDown)) w"
    by (rule settle_orphaned[OF Cons.prems(1)]) (use Cons.prems(2) in auto)
  then have "orphaned (rejectAll (settle s (pp_waiter p) (Rejected ShuttingDown)) ps) w"
    using Cons.IH Cons.prems(2) by simp
  then show ?case by (simp add: rejectAll_def rejectWaiter_def)
qed

lemma step_orphaned:
  assumes "orphaned s w"
  shows "orphaned (step s a) w"
proof (cases a)
  case (Wait now cartId eventId unicityId customerPubkey amountTokens timeoutMs)
  have upd: "x \<in> set (AList.update eventId q (pendingPayments s)) \<Longrightarrow>
        pp_waiter q = length (waiters s) \<Longrightarrow> pp_waiter (snd x) \<noteq> w" for x q
  proof -
    assume x: "x \<in> set (AList.update eventId q (pendingPayments s))"
      and q: "pp_waiter q = length (waiters s)"
    from x have "(fst x, snd x) \<in> set (AList.update eventId q (pendingPayments s))" by simp
    then have "snd x = q \<or> (fst x, snd x) \<in> set (pendingPayments s)"
      using set_update_cases by fastforce
    then show "pp_waiter (snd x) \<noteq> w"
      using assms q by (auto simp: orphaned_def)
  qed
  show ?thesis
  proof (cases "config s")
    case None
    then show ?thesis using assms Wait by (simp add: waitForPayment_def)
  next
    case (Some cfg)
    show ?thesis
    proof (cases "map_of (confirmedPayments s) cartId")
      case (Some existing)
      then show ?thesis using assms Wait \<open>config s = Some cfg\<close>
        by (simp add: waitForPayment_def)
    next
      case None
      then show ?thesis using assms Wait \<open>config s = Some cfg\<close> upd
        unfolding orphaned_def
        by (simp add: waitForPayment_def Let_def nth_append)
    qed
  qed
next
  case (TimerFires v)
  show ?thesis
  proof (cases "v < length (waiters s) \<and> w_timer (waiters s ! v) = Armed")
    case False
    then show ?thesis using assms TimerFires by (auto simp: timeoutFires_def)
  next
    case True
    then have "v \<noteq> w" using assms by (auto simp: orphaned_def)
    then show ?thesis using assms True TimerFires
      unfolding orphaned_def
      by (auto simp: timeoutFires_def rejectWaiter_def Let_def nth_list_update AList.delete_eq)
  qed
next
  case (TransferArrives ev)
  show ?thesis
  proof (cases "findPending s ev")
    case None
    then show ?thesis using assms TransferArrives by (simp add: transferArrives_def)
  next
    case (Some p)
    then obtain k where "(k, p) \<in> set (pendingPayments s)" using findPending_in_set by blast
    then have ne: "pp_waiter p \<noteq> w" using assms by (auto simp: orphaned_def)
    have "orphaned (transferFailed s ev p msg) w" for msg
      unfolding transferFailed_def rejectWaiter_def
      using settle_orphaned[OF assms ne, of "s\<lparr>pendingPayments := AList.delete (pp_eventId p) (pendingPayments s)\<rparr>"] assms
      by (simp add: delete_subset)
    moreover have "orphaned (s\<lparr>inflight := inflight s @ [(ev, p)]\<rparr>) w"
      using assms ne by (auto simp: orphaned_def)
    ultimately show ?thesis using assms TransferArrives Some
      by (simp add: transferArrives_def)
  qed
next
  case (TransferResumes now i)
  show ?thesis
  proof (cases "i < length (inflight s)")
    case False
    then show ?thesis using assms TransferResumes by (simp add: transferResumes_def)
  next
    case True
    let ?s = "s\<lparr>inflight := take i (inflight s) @ drop (Suc i) (inflight s)\<rparr>"
    have "inflight s ! i \<in> set (inflight s)" using True by simp
    then have ne: "pp_waiter (snd (inflight s ! i)) \<noteq> w"
      using assms by (auto simp: orphaned_def split: prod.splits)
    have "orphaned ?s w"
      by (rule frame_orphaned[OF assms]) (auto dest: in_set_takeD in_set_dropD)
    then show ?thesis using TransferResumes True transferFinish_orphaned[OF _ ne]
      by (simp add: transferResumes_def)
  qed
next
  case Shutdown
  show ?thesis
  proof (cases "client s")
    case False
    have "orphaned (s\<lparr>identityService := False, config := None, isInitialized := False\<rparr>) w"
      by (rule frame_orphaned[OF assms]) simp_all
    then show ?thesis using Shutdown False by (simp add: shutdown_unfold)
  next
    case True
    have "orphaned (unsubscribeTransfers s) w"
      by (rule frame_orphaned[OF assms]) simp_all
    moreover have "w \<notin> pp_waiter ` set (map snd (pendingPayments s))"
      using assms by (auto simp: orphaned_def)
    ultimately have "orphaned (rejectAll (unsubscribeTransfers s) (map snd (pendingPayments s))) w"
      by (rule rejectAll_orphaned)
    then show ?thesis using Shutdown True
      by (simp add: shutdown_unfold orphaned_def)
  qed
next
  case (Initialize cfg)
  have "orphaned (initialize s cfg) w"
    by (rule frame_orphaned[OF assms]) (simp_all add: initialize_def)
  then show ?thesis using Initialize by simp
next
  case (ConnectSettles connects sid)
  have "orphaned (snd (initializeResumes s connects sid)) w"
    by (rule frame_orphaned[OF assms])
       (simp_all add: initializeResumes_def subscribeToTokenTransfers_def Let_def)
  then show ?thesis using ConnectSettles by simp
next
  case (Reconnected sid)
  have "orphaned (subscribeToTokenTransfers s sid) w"
    by (rule frame_orphaned[OF assms]) (simp_all add: subscribeToTokenTransfers_def)
  then show ?thesis using Reconnected by simp
qed

lemma run_orphaned: "orphaned s w \<Longrightarrow> orphaned (run s acts) w"
  unfolding run_def by (induction acts arbitrary: s) (simp_all add: step_orphaned)

text \<open>
  Such a wait is never settled by anything the service does later.
\<close>

lemma orphaned_never_settles: "orphaned s w \<Longrightarrow> promiseOf (run s acts) w = None"
  using run_orphaned[of s w acts] by (simp add: orphaned_def promiseOf_def)

section \<open>Waits under event ids of their own\<close>

lemmas example_defs = waitingService_def exampleTransfer_def exampleConfig_def pendingEntry_def
  confirmedEntry_def

lemma example_findPending:
  "findPending waitingService (exampleTransfer (Some ''evt-1'') amount json) = Some pendingEntry"
  "findPending waitingService (exampleTransfer None amount json) = Some pendingEntry"
  by (simp_all add: findPending_def replyToEventId_def truthy_def example_defs)

text \<open>
  Take any run of the service in which every call of \<open>waitForPayment\<close> registered an event
  id of its own, and any wait \<open>w\<close> of that run.
  \<^item> Once the promise of \<open>w\<close> is settled it keeps that outcome, whatever runs later.
  \<^item> If the timer of \<open>w\<close> has fired or was cleared, the promise is settled.
  \<^item> While the promise is unsettled, the timer callback finds the entry, removes it and
    rejects with the timeout failure carrying the event id.
\<close>

lemma distinct_event_ids_settle_once:
  assumes "s = run newService acts" and "eventIdsDistinct s" and "w < length (waiters s)"
  shows "(promiseOf s w = Some out \<longrightarrow> promiseOf (run s later) w = Some out)
     \<and> (w_timer (waiters s ! w) \<noteq> Armed \<longrightarrow> promiseOf s w \<noteq> None)
     \<and> (promiseOf s w = None \<longrightarrow>
           promiseOf (timeoutFires s w) w =
             Some (Rejected (PaymentTimeout (w_timeout (waiters s ! w)) (w_eventId (waiters s ! w))))
           \<and> map_of (pendingPayments (timeoutFires s w)) (w_eventId (waiters s ! w)) = None)"
proof (intro conjI impI)
  have inv: "serviceInv s" using assms(1) reachable_inv by simp
  {
    assume "promiseOf s w = Some out"
    then show "promiseOf (run s later) w = Some out"
      using promiseOf_kept[OF run_promisesKept[OF inv]] by blast
  }
  {
    assume "w_timer (waiters s ! w) \<noteq> Armed"
    then show "promiseOf s w \<noteq> None"
      using inv assms(2,3) by (auto simp: serviceInv_def finishedTimersSettled_def promiseOf_def)
  }
  {
    assume un: "promiseOf s w = None"
    show "promiseOf (timeoutFires s w) w =
             Some (Rejected (PaymentTimeout (w_timeout (waiters s ! w)) (w_eventId (waiters s ! w))))"
      using unsettled_timeout(2)[OF inv assms(2,3) un] .
    show "map_of (pendingPayments (timeoutFires s w)) (w_eventId (waiters s ! w)) = None"
      using unsettled_timeout(3)[OF inv assms(2,3) un] .
  }
qed

lemma settled_promise_stays:
  assumes "promiseOf (run newService acts) w = Some out"
  shows "promiseOf (run newService (acts @ later)) w = Some out"
  using promiseOf_kept[OF run_promisesKept[OF reachable_inv[of acts]] assms]
  by (simp add: run_append)

lemma run_timed_out:
  "run newService (oneWait @ [TimerFires 0]) =
     waitingService\<lparr>pendingPayments := [],
        waiters := [\<lparr>w_eventId = ''evt-1'', w_timeout = 5000, w_timer = Fired,
                      w_promise = Some (Rejected (PaymentTimeout 5000 ''evt-1''))\<rparr>]\<rparr>"
  unfolding run_append run_oneWait
  by (simp add: run_def waitingService_def timeoutFires_def rejectWaiter_def settle_def Let_def)

text \<open>
  Two waits under one event id: the second overwrites the entry of the first, the first
  timer removes that entry and rejects its own promise, the second timer finds nothing. The
  second wait is orphaned.
\<close>

lemma overlapping_waits_orphaned: "orphaned (run newService overlappingWaits) 1"
  by (simp add: run_overlapping orphaned_def waitingService_def)

section \<open>Amount validation\<close>

lemma run_Nil: "run s [] = s"
  by (simp add: run_def)

lemma run_Cons: "run s (a # acts) = run (step s a) acts"
  by (simp add: run_def)

lemma example_arrives:
  assumes "findPending waitingService ev = Some pendingEntry" "ev_isTokenTransfer ev"
  shows "run newService (oneWait @ [TransferArrives ev]) =
           waitingService\<lparr>inflight := [(ev, pendingEntry)]\<rparr>"
  using assms
  by (simp add: run_append run_oneWait)
     (simp add: run_def transferArrives_def waitingService_def)

lemma example_resumes:
  "transferResumes (waitingService\<lparr>inflight := [(ev, pendingEntry)]\<rparr>) now 0 =
     transferFinish waitingService now ev pendingEntry"
  by (simp add: transferResumes_def waitingService_def)

lemma example_timer_between:
  "timeoutFires (waitingService\<lparr>inflight := [(ev, pendingEntry)]\<rparr>) 0 =
     waitingService\<lparr>pendingPayments := [], inflight := [(ev, pendingEntry)],
        waiters := [\<lparr>w_eventId = ''evt-1'', w_timeout = 5000, w_timer = Fired,
                      w_promise = Some (Rejected (PaymentTimeout 5000 ''evt-1''))\<rparr>]\<rparr>"
  by (simp add: waitingService_def timeoutFires_def rejectWaiter_def settle_def Let_def)

lemma between_reachable:
  assumes "s0 = run newService before" "s = run (transferArrives s0 ev) between"
  shows "s = run newService (before @ TransferArrives ev # between)"
  using assms by (simp add: run_def)

lemma resumed_mismatch:
  assumes "serviceInv s" and "i < length (inflight s)" and "inflight s ! i = (ev, p)"
    and "ev_tokenJson ev = Inr json" and "truthy json" and "ev_finalization ev = Inr fin"
    and "ev_amount ev = Some a" and "a \<noteq> pp_amountTokens p"
  shows "pendingPayments (transferResumes s now i) =
           AList.delete (pp_eventId p) (pendingPayments s)"
    and "promiseOf (transferResumes s now i) (pp_waiter p) =
           (case promiseOf s (pp_waiter p) of
              None \<Rightarrow> Some (Rejected (AmountMismatch a (pp_amountTokens p)))
            | Some earlier \<Rightarrow> Some earlier)"
proof -
  let ?t = "s\<lparr>inflight := take i (inflight s) @ drop (Suc i) (inflight s)\<rparr>"
  have wf: "pp_waiter p < length (waiters ?t)"
    using inflight_wf[OF assms(1,2,3)] by simp
  have r: "transferResumes s now i =
             rejectWaiter (?t\<lparr>pendingPayments := AList.delete (pp_eventId p) (pendingPayments ?t)\<rparr>)
               (pp_waiter p) (AmountMismatch a (pp_amountTokens p))"
    unfolding resume_unfold[OF assms(2,3)]
    by (rule finish_mismatch[OF assms(4,5,6,7,8)])
  show "pendingPayments (transferResumes s now i) =
           AList.delete (pp_eventId p) (pendingPayments s)"
    unfolding r by (simp add: rejectWaiter_def)
  have "promiseOf ?t (pp_waiter p) = promiseOf s (pp_waiter p)"
    by (rule promiseOf_frame) simp
  then show "promiseOf (transferResumes s now i) (pp_waiter p) =
           (case promiseOf s (pp_waiter p) of
              None \<Rightarrow> Some (Rejected (AmountMismatch a (pp_amountTokens p)))
            | Some earlier \<Rightarrow> Some earlier)"
    unfolding r using rejected_promise[OF wf] by simp
qed

lemma resumed_confirm:
  assumes "serviceInv s" and "i < length (inflight s)" and "inflight s ! i = (ev, p)"
    and "ev_tokenJson ev = Inr json" and "truthy json" and "ev_finalization ev = Inr fin"
    and "ev_amount ev = None \<or> ev_amount ev = Some (pp_amountTokens p)"
  shows "getConfirmedPayment (transferResumes s now i) (pp_cartId p) =
           Some \<lparr>cp_cartId = pp_cartId p, cp_requestEventId = pp_eventId p,
                 cp_transferEventId = ev_id ev, cp_confirmedAt = now\<rparr>"
    and "map_of (pendingPayments (transferResumes s now i)) (pp_eventId p) = None"
    and "promiseOf (transferResumes s now i) (pp_waiter p) =
           (case promiseOf s (pp_waiter p) of
              None \<Rightarrow> Some (Resolved \<lparr>cp_cartId = pp_cartId p, cp_requestEventId = pp_eventId p,
                                       cp_transferEventId = ev_id ev, cp_confirmedAt = now\<rparr>)
            | Some earlier \<Rightarrow> Some earlier)"
proof -
  let ?t = "s\<lparr>inflight := take i (inflight s) @ drop (Suc i) (inflight s)\<rparr>"
  have wf: "pp_waiter p < length (waiters ?t)"
    using inflight_wf[OF assms(1,2,3)] by simp
  have r: "transferResumes s now i = confirmTransfer ?t now ev p"
    unfolding resume_unfold[OF assms(2,3)]
    by (rule finish_confirm[OF assms(4,5,6,7)])
  show "getConfirmedPayment (transferResumes s now i) (pp_cartId p) =
           Some \<lparr>cp_cartId = pp_cartId p, cp_requestEventId = pp_eventId p,
                 cp_transferEventId = ev_id ev, cp_confirmedAt = now\<rparr>"
    unfolding r
    by (simp add: getConfirmedPayment_def confirmTransfer_def resolveWaiter_def Let_def
        update_conv')
  show "map_of (pendingPayments (transferResumes s now i)) (pp_eventId p) = None"
    unfolding r
    by (simp add: confirmTransfer_def resolveWaiter_def Let_def delete_conv')
  have "promiseOf ?t (pp_waiter p) = promiseOf s (pp_waiter p)"
    by (rule promiseOf_frame) simp
  then show "promiseOf (transferResumes s now i) (pp_waiter p) =
           (case promiseOf s (pp_waiter p) of
              None \<Rightarrow> Some (Resolved \<lparr>cp_cartId = pp_cartId p, cp_requestEventId = pp_eventId p,
                                       cp_transferEventId = ev_id ev, cp_confirmedAt = now\<rparr>)
            | Some earlier \<Rightarrow> Some earlier)"
    unfolding r using confirmed_promise[OF wf] by simp
qed

lemma resumed_never_confirms:
  assumes "i < length (inflight s)" and "inflight s ! i = (ev, p)"
    and "ev_amount ev = Some a" and "a \<noteq> pp_amountTokens p"
  shows "confirmedPayments (transferResumes s now i) = confirmedPayments s"
  unfolding resume_unfold[OF assms(1,2)]
  using mismatch_never_confirms[OF assms(3,4)] by simp

lemma matched_unsettled:
  assumes "findPending (run newService acts) ev = Some p"
  shows "promiseOf (run newService acts) (pp_waiter p) = None"
  using findPending_wf[OF reachable_inv assms] by (simp add: promiseOf_def)

text \<open>
  Claim C2 (as amended). In a state the service can reach, let a token transfer be matched to
  a pending payment \<open>p\<close> (by reply-to reference or by sender) and carry an amount that differs
  from the expected one. The handler suspends holding \<open>p\<close>, whose wait is unsettled at that
  moment. Let anything at all run until the handler goes on, in state \<open>s\<close>.
  \<^item> The handler records no confirmed payment, whatever the payload.
  \<^item> If the payload is decrypted, parsed and processed without an exception, the handler
    removes the entry under the event id of \<open>p\<close> and rejects the wait of \<open>p\<close> with the mismatch
    failure: that is the outcome of the wait if it was still unsettled in \<open>s\<close>, and a wait that
    the timer or \<open>shutdown\<close> has settled in between keeps its outcome.
\<close>

theorem amount_mismatch_rejects:
  assumes "s0 = run newService before" and "ev_isTokenTransfer ev"
    and "findPending s0 ev = Some p"
    and "ev_amount ev = Some a" and "a \<noteq> pp_amountTokens p"
    and "s = run (transferArrives s0 ev) between"
    and "i < length (inflight s)" and "inflight s ! i = (ev, p)"
  shows "transferArrives s0 ev = s0\<lparr>inflight := inflight s0 @ [(ev, p)]\<rparr>
     \<and> promiseOf s0 (pp_waiter p) = None
     \<and> confirmedPayments (transferResumes s now i) = confirmedPayments s
     \<and> (ev_tokenJson ev = Inr json \<and> truthy json \<and> ev_finalization ev = Inr fin \<longrightarrow>
           pendingPayments (transferResumes s now i) =
             AList.delete (pp_eventId p) (pendingPayments s)
           \<and> map_of (pendingPayments (transferResumes s now i)) (pp_eventId p) = None
           \<and> promiseOf (transferResumes s now i) (pp_waiter p) =
               (case promiseOf s (pp_waiter p) of
                  None \<Rightarrow> Some (Rejected (AmountMismatch a (pp_amountTokens p)))
                | Some earlier \<Rightarrow> Some earlier))"
proof (intro conjI impI)
  have inv: "serviceInv s"
    unfolding between_reachable[OF assms(1,6)] by (rule reachable_inv)
  show "transferArrives s0 ev = s0\<lparr>inflight := inflight s0 @ [(ev, p)]\<rparr>"
    using assms(2,3) unfolding assms(1) by (rule arrival_suspends[rotated])
  show "promiseOf s0 (pp_waiter p) = None"
    using assms(3) unfolding assms(1) by (rule matched_unsettled)
  show "confirmedPayments (transferResumes s now i) = confirmedPayments s"
    by (rule resumed_never_confirms[OF assms(7,8,4,5)])
  assume h: "ev_tokenJson ev = Inr json \<and> truthy json \<and> ev_finalization ev = Inr fin"
  then have ok: "ev_tokenJson ev = Inr json" "truthy json" "ev_finalization ev = Inr fin"
    by simp_all
  show d: "pendingPayments (transferResumes s now i) =
             AList.delete (pp_eventId p) (pendingPayments s)"
    by (rule resumed_mismatch(1)[OF inv assms(7,8) ok assms(4,5)])
  show "map_of (pendingPayments (transferResumes s now i)) (pp_eventId p) = None"
    unfolding d by (simp add: delete_conv')
  show "promiseOf (transferResumes s now i) (pp_waiter p) =
               (case promiseOf s (pp_waiter p) of
                  None \<Rightarrow> Some (Rejected (AmountMismatch a (pp_amountTokens p)))
                | Some earlier \<Rightarrow> Some earlier)"
    by (rule resumed_mismatch(2)[OF inv assms(7,8) ok assms(4,5)])
qed

theorem amount_mismatch_rejects_witness:
  "findPending (run newService oneWait) (exampleTransfer (Some ''evt-1'') (Some 4998) (Inr ''{}''))
      = Some pendingEntry
   \<and> pendingPayments (run newService (oneWait @
        [TransferArrives (exampleTransfer (Some ''evt-1'') (Some 4998) (Inr ''{}'')),
         TransferResumes 7 0])) = []
   \<and> confirmedPayments (run newService (oneWait @
        [TransferArrives (exampleTransfer (Some ''evt-1'') (Some 4998) (Inr ''{}'')),
         TransferResumes 7 0])) = []
   \<and> promiseOf (run newService (oneWait @
        [TransferArrives (exampleTransfer (Some ''evt-1'') (Some 4998) (Inr ''{}'')),
         TransferResumes 7 0])) 0
      = Some (Rejected (AmountMismatch 4998 4999))
   \<and> confirmedPayments (run newService (oneWait @
        [TransferArrives (exampleTransfer (Some ''evt-1'') (Some 4998) (Inr ''{}'')),
         TimerFires 0, TransferResumes 7 0])) = []
   \<and> promiseOf (run newService (oneWait @
        [TransferArrives (exampleTransfer (Some ''evt-1'') (Some 4998) (Inr ''{}'')),
         TimerFires 0, TransferResumes 7 0])) 0
      = Some (Rejected (PaymentTimeout 5000 ''evt-1''))"
proof -
  let ?ev = "exampleTransfer (Some ''evt-1'') (Some 4998) (Inr ''{}'')"
  let ?a = "waitingService\<lparr>inflight := [(?ev, pendingEntry)]\<rparr>"
  have f: "findPending (run newService oneWait) ?ev = Some pendingEntry"
    by (simp add: run_oneWait example_findPending)
  have t: "ev_isTokenTransfer ?ev" "ev_amount ?ev = Some 4998"
    "ev_tokenJson ?ev = Inr ''{}''" "ev_finalization ?ev = Inr True"
    by (simp_all add: exampleTransfer_def)
  have n: "(4998::int) \<noteq> pp_amountTokens pendingEntry" "truthy ''{}''"
    by (simp_all add: pendingEntry_def truthy_def)
  have fw: "findPending waitingService ?ev = Some pendingEntry"
    by (simp add: example_findPending)
  have arr: "transferArrives (run newService oneWait) ?ev = ?a"
    using example_arrives[OF fw t(1)] unfolding run_append by (simp add: run_Cons run_Nil)
  have s1: "?a = run (transferArrives (run newService oneWait) ?ev) []"
    by (simp add: arr run_Nil)
  have s2: "timeoutFires ?a 0 = run (transferArrives (run newService oneWait) ?ev) [TimerFires 0]"
    by (simp add: arr run_Cons run_Nil)
  have i1: "0 < length (inflight ?a)" "inflight ?a ! 0 = (?ev, pendingEntry)"
    by simp_all
  have i2: "0 < length (inflight (timeoutFires ?a 0))"
    "inflight (timeoutFires ?a 0) ! 0 = (?ev, pendingEntry)"
    unfolding example_timer_between by simp_all
  note direct = amount_mismatch_rejects[OF refl t(1) f t(2) n(1) s1 i1, of 7 "''{}''" True]
  note late = amount_mismatch_rejects[OF refl t(1) f t(2) n(1) s2 i2, of 7 "''{}''" True]
  have r1: "run newService (oneWait @ [TransferArrives ?ev, TransferResumes 7 0]) =
              transferResumes ?a 7 0"
    unfolding run_append by (simp add: run_Cons run_Nil arr)
  have r2: "run newService (oneWait @ [TransferArrives ?ev, TimerFires 0, TransferResumes 7 0]) =
              transferResumes (timeoutFires ?a 0) 7 0"
    unfolding run_append by (simp add: run_Cons run_Nil arr)
  have p1: "promiseOf ?a 0 = None" "pendingPayments ?a = [(''evt-1'', pendingEntry)]"
    "confirmedPayments ?a = []"
    by (simp_all add: promiseOf_def waitingService_def pendingEntry_def)
  have p2: "promiseOf (timeoutFires ?a 0) 0 = Some (Rejected (PaymentTimeout 5000 ''evt-1''))"
    "confirmedPayments (timeoutFires ?a 0) = []"
    unfolding example_timer_between by (simp_all add: promiseOf_def waitingService_def)
  have w: "pp_waiter pendingEntry = 0" "pp_eventId pendingEntry = ''evt-1''"
    "pp_amountTokens pendingEntry = 4999"
    by (simp_all add: pendingEntry_def)
  show ?thesis
    unfolding r1 r2
    using direct late f t(3,4) n(2) p1 p2 w by simp
qed

text \<open>
  The claim as written fails in two ways. A transfer matched by sender only, with amount
  4998 against 4999 expected, whose decryption throws, leaves the entry in the index and the
  promise unsettled (the \<open>catch\<close> block acts only on a reply-to reference). And a transfer
  with that amount and a good payload, whose handler is awaiting when the timer of the wait
  fires, ends the wait with the timeout failure and not with the mismatch failure.
\<close>

theorem garbled_mismatch_stays_pending:
  "findPending (run newService oneWait)
      (exampleTransfer None (Some 4998) (Inl ''decrypt failed'')) = Some pendingEntry
   \<and> ev_amount (exampleTransfer None (Some 4998) (Inl ''decrypt failed'')) = Some 4998
   \<and> pp_amountTokens pendingEntry = 4999
   \<and> map_of (pendingPayments (run newService (oneWait @
        [TransferArrives (exampleTransfer None (Some 4998) (Inl ''decrypt failed'')),
         TransferResumes 7 0]))) ''evt-1'' = Some pendingEntry
   \<and> promiseOf (run newService (oneWait @
        [TransferArrives (exampleTransfer None (Some 4998) (Inl ''decrypt failed'')),
         TransferResumes 7 0])) 0 = None
   \<and> findPending (run newService oneWait)
      (exampleTransfer (Some ''evt-1'') (Some 4998) (Inr ''{}'')) = Some pendingEntry
   \<and> ev_amount (exampleTransfer (Some ''evt-1'') (Some 4998) (Inr ''{}'')) = Some 4998
   \<and> promiseOf (run newService (oneWait @
        [TransferArrives (exampleTransfer (Some ''evt-1'') (Some 4998) (Inr ''{}'')),
         TimerFires 0, TransferResumes 7 0])) 0
      = Some (Rejected (PaymentTimeout 5000 ''evt-1''))"
proof -
  let ?g = "exampleTransfer None (Some 4998) (Inl ''decrypt failed'')"
  let ?ev = "exampleTransfer (Some ''evt-1'') (Some 4998) (Inr ''{}'')"
  have f: "findPending waitingService ?g = Some pendingEntry"
    "findPending waitingService ?ev = Some pendingEntry"
    by (simp_all add: example_findPending)
  have t: "ev_isTokenTransfer ?g" "ev_isTokenTransfer ?ev"
    by (simp_all add: exampleTransfer_def)
  have r1: "run newService (oneWait @ [TransferArrives ?g, TransferResumes 7 0]) =
              transferFinish waitingService 7 ?g pendingEntry"
    using example_arrives[OF f(1) t(1)] unfolding run_append
    by (simp add: run_Cons run_Nil run_oneWait example_resumes)
  have r2: "run newService (oneWait @ [TransferArrives ?ev, TimerFires 0, TransferResumes 7 0]) =
              transferResumes (timeoutFires (waitingService\<lparr>inflight := [(?ev, pendingEntry)]\<rparr>) 0) 7 0"
    using example_arrives[OF f(2) t(2)] unfolding run_append
    by (simp add: run_Cons run_Nil run_oneWait)
  have a: "transferFinish waitingService 7 ?g pendingEntry = waitingService"
    by (simp add: transferFinish_def transferFailed_def replyToEventId_def exampleTransfer_def)
  have b: "promiseOf (transferResumes
              (timeoutFires (waitingService\<lparr>inflight := [(?ev, pendingEntry)]\<rparr>) 0) 7 0) 0
            = Some (Rejected (PaymentTimeout 5000 ''evt-1''))"
    unfolding example_timer_between
    by (simp add: transferResumes_def transferFinish_def rejectWaiter_def settle_def
        promiseOf_def truthy_def exampleTransfer_def pendingEntry_def waitingService_def)
  show ?thesis
    unfolding r1 r2 a b run_oneWait
    using f by (simp add: promiseOf_def waitingService_def pendingEntry_def exampleTransfer_def)
qed

text \<open>
  Claim C3 (as amended). In a state the service can reach, let a token transfer be matched to
  a pending payment \<open>p\<close>, and let its payload be decrypted, parsed and processed without an
  exception. The handler suspends holding \<open>p\<close>, whose wait is unsettled at that moment. Let
  anything at all run until the handler goes on, in state \<open>s\<close>.
  \<^item> If the transfer carries no amount, the handler stores the confirmation under the cart,
    removes the entry and resolves the wait; a wait settled in between keeps its outcome.
  \<^item> A wait still unsettled in \<open>s\<close> ends with a mismatch failure if and only if the transfer
    carries an amount that differs from the expected one.
  \<^item> In that case the handler records nothing and rejects with the mismatch failure; in
    every other case it stores the confirmation.
\<close>

theorem missing_amount_confirms:
  assumes "s0 = run newService before" and "ev_isTokenTransfer ev"
    and "findPending s0 ev = Some p"
    and "ev_tokenJson ev = Inr json" and "truthy json" and "ev_finalization ev = Inr fin"
    and "s = run (transferArrives s0 ev) between"
    and "i < length (inflight s)" and "inflight s ! i = (ev, p)"
  shows "transferArrives s0 ev = s0\<lparr>inflight := inflight s0 @ [(ev, p)]\<rparr>
     \<and> promiseOf s0 (pp_waiter p) = None
     \<and> (ev_amount ev = None \<longrightarrow>
            getConfirmedPayment (transferResumes s now i) (pp_cartId p) =
              Some \<lparr>cp_cartId = pp_cartId p, cp_requestEventId = pp_eventId p,
                    cp_transferEventId = ev_id ev, cp_confirmedAt = now\<rparr>
            \<and> map_of (pendingPayments (transferResumes s now i)) (pp_eventId p) = None
            \<and> promiseOf (transferResumes s now i) (pp_waiter p) =
                (case promiseOf s (pp_waiter p) of
                   None \<Rightarrow> Some (Resolved \<lparr>cp_cartId = pp_cartId p,
                                            cp_requestEventId = pp_eventId p,
                                            cp_transferEventId = ev_id ev, cp_confirmedAt = now\<rparr>)
                 | Some earlier \<Rightarrow> Some earlier))
     \<and> (promiseOf s (pp_waiter p) = None \<longrightarrow>
           ((\<exists>got expected. promiseOf (transferResumes s now i) (pp_waiter p) =
                 Some (Rejected (AmountMismatch got expected)))
            \<longleftrightarrow> (\<exists>got. ev_amount ev = Some got \<and> got \<noteq> pp_amountTokens p)))
     \<and> ((\<exists>got. ev_amount ev = Some got \<and> got \<noteq> pp_amountTokens p) \<longrightarrow>
           confirmedPayments (transferResumes s now i) = confirmedPayments s
           \<and> promiseOf (transferResumes s now i) (pp_waiter p) =
               (case promiseOf s (pp_waiter p) of
                  None \<Rightarrow> Some (Rejected (AmountMismatch (the (ev_amount ev)) (pp_amountTokens p)))
                | Some earlier \<Rightarrow> Some earlier))
     \<and> ((\<nexists>got. ev_amount ev = Some got \<and> got \<noteq> pp_amountTokens p) \<longrightarrow>
           getConfirmedPayment (transferResumes s now i) (pp_cartId p) =
              Some \<lparr>cp_cartId = pp_cartId p, cp_requestEventId = pp_eventId p,
                    cp_transferEventId = ev_id ev, cp_confirmedAt = now\<rparr>)"
proof -
  let ?c = "\<lparr>cp_cartId = pp_cartId p, cp_requestEventId = pp_eventId p,
            cp_transferEventId = ev_id ev, cp_confirmedAt = now\<rparr>"
  let ?m = "\<exists>got. ev_amount ev = Some got \<and> got \<noteq> pp_amountTokens p"
  have inv: "serviceInv s"
    unfolding between_reachable[OF assms(1,7)] by (rule reachable_inv)
  have arr: "transferArrives s0 ev = s0\<lparr>inflight := inflight s0 @ [(ev, p)]\<rparr>"
    using assms(2,3) unfolding assms(1) by (rule arrival_suspends[rotated])
  have un: "promiseOf s0 (pp_waiter p) = None"
    using assms(3) unfolding assms(1) by (rule matched_unsettled)
  have good: "getConfirmedPayment (transferResumes s now i) (pp_cartId p) = Some ?c"
      "map_of (pendingPayments (transferResumes s now i)) (pp_eventId p) = None"
      "promiseOf (transferResumes s now i) (pp_waiter p) =
         (case promiseOf s (pp_waiter p) of None \<Rightarrow> Some (Resolved ?c)
          | Some earlier \<Rightarrow> Some earlier)"
    if "\<not> ?m"
  proof -
    from that have e: "ev_amount ev = None \<or> ev_amount ev = Some (pp_amountTokens p)"
      by (cases "ev_amount ev") auto
    show "getConfirmedPayment (transferResumes s now i) (pp_cartId p) = Some ?c"
      by (rule resumed_confirm(1)[OF inv assms(8,9,4,5,6) e])
    show "map_of (pendingPayments (transferResumes s now i)) (pp_eventId p) = None"
      by (rule resumed_confirm(2)[OF inv assms(8,9,4,5,6) e])
    show "promiseOf (transferResumes s now i) (pp_waiter p) =
         (case promiseOf s (pp_waiter p) of None \<Rightarrow> Some (Resolved ?c)
          | Some earlier \<Rightarrow> Some earlier)"
      by (rule resumed_confirm(3)[OF inv assms(8,9,4,5,6) e])
  qed
  have bad: "confirmedPayments (transferResumes s now i) = confirmedPayments s"
      "promiseOf (transferResumes s now i) (pp_waiter p) =
         (case promiseOf s (pp_waiter p) of
            None \<Rightarrow> Some (Rejected (AmountMismatch (the (ev_amount ev)) (pp_amountTokens p)))
          | Some earlier \<Rightarrow> Some earlier)"
    if "?m"
  proof -
    from that obtain got where g: "ev_amount ev = Some got" "got \<noteq> pp_amountTokens p"
      by blast
    show "confirmedPayments (transferResumes s now i) = confirmedPayments s"
      by (rule resumed_never_confirms[OF assms(8,9) g])
    show "promiseOf (transferResumes s now i) (pp_waiter p) =
         (case promiseOf s (pp_waiter p) of
            None \<Rightarrow> Some (Rejected (AmountMismatch (the (ev_amount ev)) (pp_amountTokens p)))
          | Some earlier \<Rightarrow> Some earlier)"
      unfolding g(1) option.sel by (rule resumed_mismatch(2)[OF inv assms(8,9,4,5,6) g])
  qed
  have iff: "(\<exists>got expected. promiseOf (transferResumes s now i) (pp_waiter p) =
                 Some (Rejected (AmountMismatch got expected))) \<longleftrightarrow> ?m"
    if u: "promiseOf s (pp_waiter p) = None"
  proof (cases ?m)
    case True
    then show ?thesis using bad(2)[OF True] u by simp
  next
    case False
    then show ?thesis using good(3)[OF False] u by simp
  qed
  have none: "\<not> ?m" if "ev_amount ev = None"
    using that by simp
  show ?thesis
    using arr un good bad iff none by blast
qed

theorem missing_amount_confirms_witness:
  "ev_amount (exampleTransfer (Some ''evt-1'') None (Inr ''{}'')) = None
   \<and> promiseOf (run newService (oneWait @
        [TransferArrives (exampleTransfer (Some ''evt-1'') None (Inr ''{}'')),
         TransferResumes 7 0])) 0 = Some (Resolved confirmedEntry)
   \<and> getConfirmedPayment (run newService (oneWait @
        [TransferArrives (exampleTransfer (Some ''evt-1'') None (Inr ''{}'')),
         TransferResumes 7 0])) ''cart-1'' = Some confirmedEntry
   \<and> promiseOf (run newService (oneWait @
        [TransferArrives (exampleTransfer (Some ''evt-1'') None (Inr ''{}'')),
         TimerFires 0, TransferResumes 7 0])) 0
      = Some (Rejected (PaymentTimeout 5000 ''evt-1''))
   \<and> getConfirmedPayment (run newService (oneWait @
        [TransferArrives (exampleTransfer (Some ''evt-1'') None (Inr ''{}'')),
         TimerFires 0, TransferResumes 7 0])) ''cart-1'' = Some confirmedEntry"
proof -
  let ?ev = "exampleTransfer (Some ''evt-1'') None (Inr ''{}'')"
  let ?a = "waitingService\<lparr>inflight := [(?ev, pendingEntry)]\<rparr>"
  have f: "findPending (run newService oneWait) ?ev = Some pendingEntry"
    by (simp add: run_oneWait example_findPending)
  have t: "ev_isTokenTransfer ?ev" "ev_tokenJson ?ev = Inr ''{}''"
    "ev_finalization ?ev = Inr True" "ev_amount ?ev = None" "ev_id ?ev = ''transfer-evt-1''"
    by (simp_all add: exampleTransfer_def)
  have i: "truthy ''{}''"
    by (simp add: truthy_def)
  have fw: "findPending waitingService ?ev = Some pendingEntry"
    by (simp add: example_findPending)
  have arr: "transferArrives (run newService oneWait) ?ev = ?a"
    using example_arrives[OF fw t(1)] unfolding run_append by (simp add: run_Cons run_Nil)
  have s1: "?a = run (transferArrives (run newService oneWait) ?ev) []"
    by (simp add: arr run_Nil)
  have s2: "timeoutFires ?a 0 = run (transferArrives (run newService oneWait) ?ev) [TimerFires 0]"
    by (simp add: arr run_Cons run_Nil)
  have i1: "0 < length (inflight ?a)" "inflight ?a ! 0 = (?ev, pendingEntry)"
    by simp_all
  have i2: "0 < length (inflight (timeoutFires ?a 0))"
    "inflight (timeoutFires ?a 0) ! 0 = (?ev, pendingEntry)"
    unfolding example_timer_between by simp_all
  note direct = missing_amount_confirms[OF refl t(1) f t(2) i t(3) s1 i1, of 7]
  note late = missing_amount_confirms[OF refl t(1) f t(2) i t(3) s2 i2, of 7]
  have r1: "run newService (oneWait @ [TransferArrives ?ev, TransferResumes 7 0]) =
              transferResumes ?a 7 0"
    unfolding run_append by (simp add: run_Cons run_Nil arr)
  have r2: "run newService (oneWait @ [TransferArrives ?ev, TimerFires 0, TransferResumes 7 0]) =
              transferResumes (timeoutFires ?a 0) 7 0"
    unfolding run_append by (simp add: run_Cons run_Nil arr)
  have p1: "promiseOf ?a 0 = None"
    by (simp add: promiseOf_def waitingService_def)
  have p2: "promiseOf (timeoutFires ?a 0) 0 = Some (Rejected (PaymentTimeout 5000 ''evt-1''))"
    unfolding example_timer_between by (simp add: promiseOf_def waitingService_def)
  have w: "pp_waiter pendingEntry = 0" "pp_eventId pendingEntry = ''evt-1''"
    "pp_cartId pendingEntry = ''cart-1''"
    by (simp_all add: pendingEntry_def)
  show ?thesis
    unfolding r1 r2
    using direct late t(4,5) p1 p2 w by (simp add: confirmedEntry_def)
qed

text \<open>
  The claim as written fails in two ways. A transfer that names the request, carries no
  amount and cannot be decrypted is not confirmed: the wait is rejected with the processing
  failure. And for a transfer with a differing amount and a good payload, whose handler is
  awaiting when the timer of the wait fires, the wait does not end with a mismatch failure.
\<close>

theorem garbled_transfer_without_amount_fails:
  "findPending (run newService oneWait)
      (exampleTransfer (Some ''evt-1'') None (Inl ''decrypt failed'')) = Some pendingEntry
   \<and> ev_amount (exampleTransfer (Some ''evt-1'') None (Inl ''decrypt failed'')) = None
   \<and> promiseOf (run newService (oneWait @
        [TransferArrives (exampleTransfer (Some ''evt-1'') None (Inl ''decrypt failed'')),
         TransferResumes 7 0])) 0
       = Some (Rejected (PaymentFailed ''decrypt failed''))
   \<and> getConfirmedPayment (run newService (oneWait @
        [TransferArrives (exampleTransfer (Some ''evt-1'') None (Inl ''decrypt failed'')),
         TransferResumes 7 0])) ''cart-1'' = None
   \<and> findPending (run newService oneWait)
      (exampleTransfer (Some ''evt-1'') (Some 4998) (Inr ''{}'')) = Some pendingEntry
   \<and> (\<exists>got. ev_amount (exampleTransfer (Some ''evt-1'') (Some 4998) (Inr ''{}'')) = Some got
              \<and> got \<noteq> pp_amountTokens pendingEntry)
   \<and> (\<nexists>got expected. promiseOf (run newService (oneWait @
        [TransferArrives (exampleTransfer (Some ''evt-1'') (Some 4998) (Inr ''{}'')),
         TimerFires 0, TransferResumes 7 0])) 0
       = Some (Rejected (AmountMismatch got expected)))"
proof -
  let ?g = "exampleTransfer (Some ''evt-1'') None (Inl ''decrypt failed'')"
  let ?ev = "exampleTransfer (Some ''evt-1'') (Some 4998) (Inr ''{}'')"
  have f: "findPending waitingService ?g = Some pendingEntry"
    "findPending waitingService ?ev = Some pendingEntry"
    by (simp_all add: example_findPending)
  have t: "ev_isTokenTransfer ?g" "ev_isTokenTransfer ?ev"
    by (simp_all add: exampleTransfer_def)
  have r1: "run newService (oneWait @ [TransferArrives ?g, TransferResumes 7 0]) =
              transferFinish waitingService 7 ?g pendingEntry"
    using example_arrives[OF f(1) t(1)] unfolding run_append
    by (simp add: run_Cons run_Nil run_oneWait example_resumes)
  have r2: "run newService (oneWait @ [TransferArrives ?ev, TimerFires 0, TransferResumes 7 0]) =
              transferResumes (timeoutFires (waitingService\<lparr>inflight := [(?ev, pendingEntry)]\<rparr>) 0) 7 0"
    using example_arrives[OF f(2) t(2)] unfolding run_append
    by (simp add: run_Cons run_Nil run_oneWait)
  have a: "promiseOf (transferFinish waitingService 7 ?g pendingEntry) 0 =
             Some (Rejected (PaymentFailed ''decrypt failed''))"
    "getConfirmedPayment (transferFinish waitingService 7 ?g pendingEntry) ''cart-1'' = None"
    by (simp_all add: transferFinish_def transferFailed_def rejectWaiter_def settle_def
        getConfirmedPayment_def replyToEventId_def promiseOf_def truthy_def exampleTransfer_def
        pendingEntry_def waitingService_def)
  have b: "promiseOf (transferResumes
              (timeoutFires (waitingService\<lparr>inflight := [(?ev, pendingEntry)]\<rparr>) 0) 7 0) 0
            = Some (Rejected (PaymentTimeout 5000 ''evt-1''))"
    unfolding example_timer_between
    by (simp add: transferResumes_def transferFinish_def rejectWaiter_def settle_def
        promiseOf_def truthy_def exampleTransfer_def pendingEntry_def waitingService_def)
  show ?thesis
    unfolding r1 r2 a b run_oneWait
    using f by (simp add: pendingEntry_def exampleTransfer_def)
qed

section \<open>Confirmed payments and shutdown\<close>

text \<open>
  Claim C8. On an initialized service, a call of \<open>waitForPayment\<close> for a cart that has a
  confirmed payment returns that stored record and leaves the service as it was: no entry is
  registered and no timer started. A second call, with whatever other arguments, returns the
  identical record.
\<close>

theorem waitForPayment_returns_confirmed:
  assumes "config s = Some cfg" and "getConfirmedPayment s cartId = Some existing"
  shows "waitForPayment s now cartId eventId unicityId customerPubkey amountTokens timeoutMs
           = (WaitReturned existing, s)
     \<and> waitForPayment
           (snd (waitForPayment s now cartId eventId unicityId customerPubkey amountTokens timeoutMs))
           now' cartId eventId' unicityId' customerPubkey' amountTokens' timeoutMs'
           = (WaitReturned existing, s)"
  using assms by (simp add: waitForPayment_def getConfirmedPayment_def)

lemma run_confirmed:
  "run newService paidRun =
   waitingService\<lparr>pendingPayments := [], confirmedPayments := [(''cart-1'', confirmedEntry)],
      waiters := [\<lparr>w_eventId = ''evt-1'', w_timeout = 5000, w_timer = Cleared,
                    w_promise = Some (Resolved confirmedEntry)\<rparr>]\<rparr>"
proof -
  let ?ev = "exampleTransfer (Some ''evt-1'') (Some 4999) (Inr ''{}'')"
  have f: "findPending waitingService ?ev = Some pendingEntry"
    by (simp add: example_findPending)
  have t: "ev_isTokenTransfer ?ev"
    by (simp add: exampleTransfer_def)
  have "run newService paidRun = transferFinish waitingService 7 ?ev pendingEntry"
    unfolding paidRun_def
    using example_arrives[OF f t] unfolding run_append
    by (simp add: run_Cons run_Nil run_oneWait example_resumes)
  then show ?thesis
    by (simp add: transferFinish_def confirmTransfer_def resolveWaiter_def settle_def
        clearTimeout_def truthy_def Let_def example_defs)
qed

theorem waitForPayment_returns_confirmed_witness:
  "getConfirmedPayment
      (run newService paidRun) ''cart-1''
     = Some confirmedEntry
   \<and> fst (waitForPayment
        (run newService paidRun)
        8 ''cart-1'' ''evt-1'' ''@alice'' ''customer-pubkey-hex'' 4999 (Some 5000))
     = WaitReturned confirmedEntry
   \<and> fst (waitForPayment
        (snd (waitForPayment
           (run newService paidRun)
           8 ''cart-1'' ''evt-1'' ''@alice'' ''customer-pubkey-hex'' 4999 (Some 5000)))
        9 ''cart-1'' ''evt-1'' ''@alice'' ''customer-pubkey-hex'' 4999 None)
     = WaitReturned confirmedEntry
   \<and> waiters (snd (waitForPayment
        (run newService paidRun)
        8 ''cart-1'' ''evt-1'' ''@alice'' ''customer-pubkey-hex'' 4999 (Some 5000)))
     = waiters (run newService paidRun)"
proof -
  let ?s = "run newService paidRun"
  have c: "config ?s = Some exampleConfig"
    by (simp add: run_confirmed waitingService_def)
  have g: "getConfirmedPayment ?s ''cart-1'' = Some confirmedEntry"
    by (simp add: run_confirmed getConfirmedPayment_def)
  note t = waitForPayment_returns_confirmed[OF c g,
        of 8 "''evt-1''" "''@alice''" "''customer-pubkey-hex''" 4999 "Some 5000"
           9 "''evt-1''" "''@alice''" "''customer-pubkey-hex''" 4999 None]
  from t have a: "waitForPayment ?s 8 ''cart-1'' ''evt-1'' ''@alice'' ''customer-pubkey-hex'' 4999
                    (Some 5000) = (WaitReturned confirmedEntry, ?s)"
    by (rule conjunct1)
  from t have b: "waitForPayment
        (snd (waitForPayment ?s 8 ''cart-1'' ''evt-1'' ''@alice'' ''customer-pubkey-hex'' 4999
                (Some 5000)))
        9 ''cart-1'' ''evt-1'' ''@alice'' ''customer-pubkey-hex'' 4999 None
      = (WaitReturned confirmedEntry, ?s)"
    by (rule conjunct2)
  have b': "fst (waitForPayment
        (snd (waitForPayment ?s 8 ''cart-1'' ''evt-1'' ''@alice'' ''customer-pubkey-hex'' 4999
                (Some 5000)))
        9 ''cart-1'' ''evt-1'' ''@alice'' ''customer-pubkey-hex'' 4999 None)
      = WaitReturned confirmedEntry"
    unfolding b by simp
  have a1: "fst (waitForPayment ?s 8 ''cart-1'' ''evt-1'' ''@alice'' ''customer-pubkey-hex'' 4999
                    (Some 5000)) = WaitReturned confirmedEntry"
    and a2: "waiters (snd (waitForPayment ?s 8 ''cart-1'' ''evt-1'' ''@alice''
                    ''customer-pubkey-hex'' 4999 (Some 5000))) = waiters ?s"
    unfolding a by simp_all
  show ?thesis using g a1 b' a2 by (intro conjI)
qed

text \<open>
  In any state the service can reach in which it holds its client and a subscription id,
  \<open>shutdown\<close> empties the index, rejects the wait of every entry with the shutdown failure,
  unsubscribes that subscription and then disconnects, and a second \<open>shutdown\<close> changes
  nothing. When no event id was registered twice, no wait at all is left unsettled.
\<close>

lemma shutdown_effects:
  assumes "s = run newService acts" and cl: "client s"
    and "transferSubscriptionId s = Some sid" and "truthy sid"
  shows "pendingPayments (shutdown s) = []
     \<and> (\<forall>(k, p) \<in> set (pendingPayments s).
           promiseOf (shutdown s) (pp_waiter p) = Some (Rejected ShuttingDown))
     \<and> relayCalls (shutdown s) = relayCalls s @ [Unsubscribe sid, Disconnect]
     \<and> transferSubscriptionId (shutdown s) = None
     \<and> \<not> client (shutdown s) \<and> \<not> isInitialized (shutdown s)
     \<and> shutdown (shutdown s) = shutdown s
     \<and> (eventIdsDistinct s \<longrightarrow>
           (\<forall>w < length (waiters s). promiseOf (shutdown s) w \<noteq> None))"
proof -
  have inv: "serviceInv s" using assms(1) reachable_inv by simp
  have all: "\<forall>w < length (waiters s). promiseOf (shutdown s) w \<noteq> None"
    if d: "eventIdsDistinct s"
  proof -
    have len: "length (waiters (shutdown s)) = length (waiters s)"
      by (simp add: shutdown_unfold)
    have "eventIdsDistinct (shutdown s)"
      using d by (simp add: eventIdsDistinct_def shutdown_unfold)
    then have "unsettledArePending (shutdown s)"
      using shutdown_inv[OF inv] by (simp add: serviceInv_def)
    moreover have "pendingPayments (shutdown s) = []"
      using cl by (simp add: shutdown_unfold)
    ultimately show ?thesis
      using len by (auto simp: unsettledArePending_def promiseOf_def)
  qed
  have "promiseOf (shutdown s) (pp_waiter p) = Some (Rejected ShuttingDown)"
    if "(k, p) \<in> set (pendingPayments s)" for k p
    using shutdown_promise[OF cl inv that] .
  then have "\<forall>(k, p) \<in> set (pendingPayments s).
           promiseOf (shutdown s) (pp_waiter p) = Some (Rejected ShuttingDown)"
    by blast
  then show ?thesis
    using shutdown_calls[OF cl assms(3,4)] shutdown_idempotent[of s] all by simp
qed

section \<open>The example shop, evaluated\<close>

text \<open>
  \<open>connectedService\<close> is the service after \<open>initialize\<close> and a \<open>connect\<close> that succeeds.
\<close>

lemma run_connected:
  "run newService [Initialize exampleConfig, ConnectSettles True ''sub-123''] = connectedService"
  by (simp add: run_def newService_def initialize_def initializeResumes_def
      subscribeToTokenTransfers_def connectedService_def Let_def)

lemma retryLoop_immediate:
  assumes "lk (Suc 0) c = Some pk" "truthy pk"
  shows "retryLoop lk c 3 (Suc 0) = (Some pk, [Query c])"
  using retryLoop_first_success[of "Suc 0" "Suc 0" 3 lk c pk] assms by simp

lemma send_ok:
  "sendPaymentRequest connectedService knownCustomer (Inr ''evt-1'')
      ''cart-1'' ''@alice'' 4999 =
     Inr \<lparr>pr_eventId = ''evt-1'', pr_amountTokens = 4999, pr_recipientNametag = ''runic-vault'',
          pr_coinId = ''test-coin-id'', pr_customerPubkey = ''customer-pubkey-hex''\<rparr>"
  by (simp add: sendPaymentRequest_def resolvePubkeyWithRetry_def retryLoop_immediate
      connectedService_def exampleConfig_def normalizeId_def truthy_def knownCustomer_def)

lemma send_unresolved:
  "sendPaymentRequest connectedService neverFound (Inr ''evt-1'') ''cart-1'' ''@alice'' 4999 =
     Inl (CouldNotResolve ''alice'')"
proof -
  have "retryLoop neverFound ''alice'' 3 1 =
     (None, concat (map (\<lambda>i. Query ''alice'' # (if i < 3 then [Sleep (1000 * 2 ^ (i - 1))] else []))
                        [1..<Suc 3]))"
    by (rule retryLoop_all_fail) (simp add: notFound_def neverFound_def)
  then show ?thesis
    by (simp add: sendPaymentRequest_def resolvePubkeyWithRetry_def connectedService_def
        exampleConfig_def normalizeId_def)
qed

lemma send_refused:
  "sendPaymentRequest connectedService knownCustomer (Inl ''relay down'')
      ''cart-1'' ''@alice'' 4999 = Inl (RequestFailed ''relay down'')"
  by (simp add: sendPaymentRequest_def resolvePubkeyWithRetry_def retryLoop_immediate
      connectedService_def exampleConfig_def normalizeId_def truthy_def knownCustomer_def)

section \<open>The checkout lock\<close>

lemma release_locks [simp]:
  "checkoutLocks (checkoutRelease st cartId) = checkoutLocks st - {cartId}"
  by (simp add: checkoutRelease_def)

lemma recordCheckout_locks [simp]:
  "checkoutLocks (recordCheckout st env cartId unicityId cart paymentRequest) = checkoutLocks st"
  by (simp add: recordCheckout_def Let_def)

lemma lockStep_return:
  "checkoutLocks st' = checkoutLocks st \<Longrightarrow> lockStep cartId st (checkoutReturn st' cartId response)"
  by (simp add: lockStep_def checkoutReturn_def)

lemma lockStep_after:
  "lockStep cartId st (checkoutAfterInventory st cartId unicityId cart inventoryErrors)"
  by (simp add: checkoutAfterInventory_def lockStep_return split: option.splits)
     (simp add: lockStep_def)

lemma lockStep_inventory:
  "lockStep cartId st (checkoutInventory st cartId unicityId cart lines inventoryErrors)"
proof (cases lines)
  case Nil
  then show ?thesis by (simp add: checkoutInventory_def lockStep_after)
next
  case (Cons line rest)
  then show ?thesis by (simp add: checkoutInventory_def lockStep_def)
qed

text \<open>
  Going on after an \<open>await\<close> keeps the lock while the invocation stays suspended and
  releases it when the invocation returns.
\<close>

lemma lockStep_resume: "lockStep (taskCartId task) st (checkoutResume st env task answer)"
proof (cases task)
  case (AwaitingVariant cartId unicityId cart line rest inventoryErrors)
  show ?thesis
  proof (cases answer)
    case (VariantAnswer r)
    then show ?thesis using AwaitingVariant
      by (cases r) (simp_all add: lockStep_return lockStep_inventory)
  next
    case (RequestAnswer r)
    then show ?thesis using AwaitingVariant by (simp add: lockStep_def)
  qed
next
  case (AwaitingRequest cartId unicityId cart)
  show ?thesis
  proof (cases answer)
    case (VariantAnswer r)
    then show ?thesis using AwaitingRequest by (simp add: lockStep_def)
  next
    case (RequestAnswer r)
    then show ?thesis using AwaitingRequest
      by (cases r) (simp_all add: lockStep_return)
  qed
qed

lemma release_acquired:
  "cartId \<notin> checkoutLocks st \<Longrightarrow>
     checkoutRelease (st\<lparr>checkoutLocks := insert cartId (checkoutLocks st)\<rparr>) cartId = st"
  by (simp add: checkoutRelease_def)

lemma enter_free:
  assumes "cartId \<notin> checkoutLocks st"
  shows "checkoutEnter st cartId unicityId =
           (case getCart (cartStore st) cartId of
              None \<Rightarrow> (Returned CartNotFound, st)
            | Some cart \<Rightarrow>
                (case c_lines cart of
                   [] \<Rightarrow> (Returned CartEmpty, st)
                 | line # rest \<Rightarrow>
                     (Suspended (AwaitingVariant cartId unicityId cart line rest []),
                      st\<lparr>checkoutLocks := insert cartId (checkoutLocks st)\<rparr>)))"
  using assms
  by (simp add: checkoutEnter_def checkoutAcquire_def checkoutReturn_def release_acquired
      checkoutInventory_def split: option.splits list.splits)

lemma remove_nth_distinct:
  assumes "distinct (map f xs)" "i < length xs"
  shows "distinct (map f (take i xs @ drop (Suc i) xs))"
    and "set (map f (take i xs @ drop (Suc i) xs)) = set (map f xs) - {f (xs ! i)}"
proof -
  have xs: "xs = take i xs @ xs ! i # drop (Suc i) xs"
    using assms(2) by (rule id_take_nth_drop)
  have d: "distinct (map f (take i xs @ xs ! i # drop (Suc i) xs))"
    using assms(1) xs by simp
  then show "distinct (map f (take i xs @ drop (Suc i) xs))"
    by auto
  have "set (map f xs) = set (map f (take i xs @ xs ! i # drop (Suc i) xs))"
    using xs by simp
  then show "set (map f (take i xs @ drop (Suc i) xs)) = set (map f xs) - {f (xs ! i)}"
    using d by auto
qed

lemma call_inv:
  assumes "lockInv sys"
  shows "lockInv (systemStep sys (CallCheckout cartId unicityId))"
proof (cases "cartId \<in> checkoutLocks (sys_shop sys)")
  case True
  then show ?thesis using assms by (simp add: enter_locked lockInv_def)
next
  case False
  then have new: "cartId \<notin> set (map taskCartId (sys_tasks sys))"
    using assms by (simp add: lockInv_def)
  show ?thesis
    using assms new
    by (simp add: enter_free[OF False] lockInv_def split: option.splits list.splits)
qed

lemma answered_inv:
  assumes "lockInv sys"
  shows "lockInv (systemStep sys (Answered i env answer))"
proof (cases "i < length (sys_tasks sys)")
  case False
  then show ?thesis using assms by simp
next
  case True
  let ?t = "sys_tasks sys ! i"
  let ?r = "checkoutResume (sys_shop sys) env ?t answer"
  have ls: "lockStep (taskCartId ?t) (sys_shop sys) ?r"
    by (rule lockStep_resume)
  have d: "distinct (map taskCartId (sys_tasks sys))"
    and l: "checkoutLocks (sys_shop sys) = set (map taskCartId (sys_tasks sys))"
    using assms by (simp_all add: lockInv_def)
  show ?thesis
  proof (cases "fst ?r")
    case (Returned response)
    then have "checkoutLocks (snd ?r) = checkoutLocks (sys_shop sys) - {taskCartId ?t}"
      using ls by (simp add: lockStep_def)
    then show ?thesis
      using True Returned l remove_nth_distinct[OF d True]
      by (simp add: lockInv_def)
  next
    case (Suspended task')
    then have same: "taskCartId task' = taskCartId ?t"
      and locks: "checkoutLocks (snd ?r) = checkoutLocks (sys_shop sys)"
      using ls by (simp_all add: lockStep_def)
    have "map taskCartId ((sys_tasks sys)[i := task']) = map taskCartId (sys_tasks sys)"
      using same by (simp add: map_update list_update_same_conv True)
    then show ?thesis
      using True Suspended d l locks by (simp add: lockInv_def)
  qed
qed

lemma sameCall_cart: "sameCall task task' \<Longrightarrow> taskCartId task' = taskCartId task"
  by (cases task; cases task') simp_all

lemma changed_inv:
  assumes "lockInv sys"
  shows "lockInv (systemStep sys (CartChanged i task))"
proof (cases "i < length (sys_tasks sys) \<and> sameCall (sys_tasks sys ! i) task")
  case False
  then show ?thesis using assms by auto
next
  case True
  then have "map taskCartId ((sys_tasks sys)[i := task]) = map taskCartId (sys_tasks sys)"
    using sameCall_cart[of "sys_tasks sys ! i" task]
    by (simp add: map_update list_update_same_conv)
  then show ?thesis using True assms by (simp add: lockInv_def)
qed

text \<open>
  Every step of the process keeps the lock invariant: the set holds exactly the carts of the
  suspended invocations, each once.
\<close>

lemma step_lockInv: "lockInv sys \<Longrightarrow> lockInv (systemStep sys a)"
proof (cases a)
  case (CallCheckout cartId unicityId)
  assume "lockInv sys"
  then show ?thesis unfolding CallCheckout by (rule call_inv)
next
  case (Answered i env answer)
  assume "lockInv sys"
  then show ?thesis unfolding Answered by (rule answered_inv)
next
  case (CartChanged i task)
  assume "lockInv sys"
  then show ?thesis unfolding CartChanged by (rule changed_inv)
next
  case (Elsewhere f)
  assume "lockInv sys"
  then show ?thesis unfolding Elsewhere by (simp add: lockInv_def)
qed

lemma run_lockInv: "lockInv sys \<Longrightarrow> lockInv (systemRun sys acts)"
  unfolding systemRun_def by (induction acts arbitrary: sys) (simp_all add: step_lockInv)

lemma reachable_lockInv: "lockInv (systemRun (startSystem st) acts)"
  by (rule run_lockInv) (simp add: lockInv_def startSystem_def clearCheckoutLocks_def)

lemma racing_call:
  assumes "lockInv sys" "i < length (sys_tasks sys)"
  shows "systemStep sys (CallCheckout (taskCartId (sys_tasks sys ! i)) unicityId) =
           sys\<lparr>sys_returned := sys_returned sys @
                  [(taskCartId (sys_tasks sys ! i), CheckoutInProgress)]\<rparr>"
proof -
  have "taskCartId (sys_tasks sys ! i) \<in> checkoutLocks (sys_shop sys)"
    using assms by (simp add: lockInv_def)
  then show ?thesis by (simp add: enter_locked)
qed

lemma example_inventory_ok:
  "checkInventory (env_getVariant (exampleEnv answers sent)) (c_lines exampleCart) = Inr []"
  by (simp add: exampleEnv_def exampleCart_def)

lemma example_checkout_ok:
  "checkout_with_unicity exampleShop
      (exampleEnv knownCustomer (Inr ''evt-1'')) ''cart-1'' ''@alice'' =
   (RequestSent \<lparr>pr_eventId = ''evt-1'', pr_amountTokens = 4999,
                  pr_recipientNametag = ''runic-vault'', pr_coinId = ''test-coin-id'',
                  pr_customerPubkey = ''customer-pubkey-hex''\<rparr>,
    exampleShop\<lparr>
      orderStore := [(''cart-1'',
         \<lparr>o_id = ''order-1'', o_cartId = ''cart-1'', o_status = AwaitingPayment,
          o_totalAmountCents = 4999, o_currency = ''AED'', o_paymentEventId = Some ''evt-1'',
          o_unicityId = Some ''@alice'', o_createdAt = 10, o_updatedAt = 11, o_paidAt = None\<rparr>)],
      cartStore := [(''cart-1'',
         exampleCart\<lparr>c_lockedForCheckout := Some True, c_updatedAt := 12\<rparr>)]\<rparr>)"
proof -
  have s: "sendPaymentRequest connectedService
             (env_lookup (exampleEnv knownCustomer (Inr ''evt-1'')))
             (env_issue (exampleEnv knownCustomer (Inr ''evt-1'')))
             ''cart-1'' ''@alice'' 4999 =
     Inr \<lparr>pr_eventId = ''evt-1'', pr_amountTokens = 4999, pr_recipientNametag = ''runic-vault'',
          pr_coinId = ''test-coin-id'', pr_customerPubkey = ''customer-pubkey-hex''\<rparr>"
    using send_ok by (simp add: exampleEnv_def)
  have c: "c_lines exampleCart \<noteq> []" "c_subtotalCents exampleCart = 4999"
    "c_currency exampleCart = ''AED''"
    by (simp_all add: exampleCart_def)
  have i: "isConnected connectedService" by (simp add: isConnected_def connectedService_def)
  show ?thesis
    by (simp add: checkout_unfold checkoutAcquire_def checkoutBody_def
        checkoutRelease_def exampleShop_def getCart_def example_inventory_ok
        existingOrderGuard_def getOrderByCartId_def s c i recordCheckout_def trackOrder_def
        markAwaitingPayment_def lockCartForCheckout_def Let_def)
       (simp add: exampleEnv_def)
qed

text \<open>
  Claim C4, for the handler as it runs on the event loop.
  \<^item> A call for a cart that is in the lock set returns at once, answering that a checkout
    is in progress, and changes nothing.
  \<^item> A call for a cart that is not in the set either returns at once with the shop as it
    was (no such cart, or an empty one), or suspends at its first \<open>await\<close> with the cart
    added to the set.
  \<^item> When a suspended invocation goes on, with whatever answer, it either suspends again
    with the set as it is, or returns, by whichever exit, with its cart taken out of the
    set; a thrown exception is one of these exits.
  \<^item> In every state the process reaches from its start, whatever else has run, the set
    holds exactly the carts of the suspended invocations and no two of them have the same
    cart; a call for the cart of a suspended invocation is refused without any effect.
  \<^item> Run to its end with nothing in between, the invocation is \<open>checkout_with_unicity\<close> as
    defined above, and leaves the set as it found it.
\<close>

theorem checkout_lock_discipline:
  assumes "sys = systemRun (startSystem loaded) acts"
  shows "(cartId \<in> checkoutLocks st \<longrightarrow>
            checkoutEnter st cartId unicityId = (Returned CheckoutInProgress, st))
     \<and> (cartId \<notin> checkoutLocks st \<longrightarrow>
            checkoutEnter st cartId unicityId =
              (case getCart (cartStore st) cartId of
                 None \<Rightarrow> (Returned CartNotFound, st)
               | Some cart \<Rightarrow>
                   (case c_lines cart of
                      [] \<Rightarrow> (Returned CartEmpty, st)
                    | line # rest \<Rightarrow>
                        (Suspended (AwaitingVariant cartId unicityId cart line rest []),
                         st\<lparr>checkoutLocks := insert cartId (checkoutLocks st)\<rparr>))))
     \<and> (case fst (checkoutResume st env task answer) of
           Returned response \<Rightarrow>
             checkoutLocks (snd (checkoutResume st env task answer)) =
               checkoutLocks st - {taskCartId task}
         | Suspended task' \<Rightarrow>
             taskCartId task' = taskCartId task \<and>
             checkoutLocks (snd (checkoutResume st env task answer)) = checkoutLocks st)
     \<and> checkoutResume st env (AwaitingVariant cartId unicityId cart line rest errors)
            (VariantAnswer (Inl thrown)) =
          (Returned (CheckoutError thrown), checkoutRelease st cartId)
     \<and> distinct (map taskCartId (sys_tasks sys))
     \<and> checkoutLocks (sys_shop sys) = set (map taskCartId (sys_tasks sys))
     \<and> (i < length (sys_tasks sys) \<longrightarrow>
           systemStep sys (CallCheckout (taskCartId (sys_tasks sys ! i)) unicityId) =
             sys\<lparr>sys_returned := sys_returned sys @
                    [(taskCartId (sys_tasks sys ! i), CheckoutInProgress)]\<rparr>)
     \<and> checkoutDrive (snd (checkoutEnter st cartId unicityId)) env
            (fst (checkoutEnter st cartId unicityId)) =
          checkout_with_unicity st env cartId unicityId
     \<and> (cartId \<notin> checkoutLocks st \<longrightarrow>
           checkoutLocks (snd (checkout_with_unicity st env cartId unicityId)) = checkoutLocks st)"
proof -
  have inv: "lockInv sys"
    unfolding assms by (rule reachable_lockInv)
  have a: "cartId \<in> checkoutLocks st \<longrightarrow>
            checkoutEnter st cartId unicityId = (Returned CheckoutInProgress, st)"
    by (simp add: enter_locked)
  have b: "cartId \<notin> checkoutLocks st \<longrightarrow>
            checkoutEnter st cartId unicityId =
              (case getCart (cartStore st) cartId of
                 None \<Rightarrow> (Returned CartNotFound, st)
               | Some cart \<Rightarrow>
                   (case c_lines cart of
                      [] \<Rightarrow> (Returned CartEmpty, st)
                    | line # rest \<Rightarrow>
                        (Suspended (AwaitingVariant cartId unicityId cart line rest []),
                         st\<lparr>checkoutLocks := insert cartId (checkoutLocks st)\<rparr>)))"
    using enter_free by blast
  have c: "case fst (checkoutResume st env task answer) of
           Returned response \<Rightarrow>
             checkoutLocks (snd (checkoutResume st env task answer)) =
               checkoutLocks st - {taskCartId task}
         | Suspended task' \<Rightarrow>
             taskCartId task' = taskCartId task \<and>
             checkoutLocks (snd (checkoutResume st env task answer)) = checkoutLocks st"
    using lockStep_resume[of task st env answer] by (simp add: lockStep_def)
  have d: "checkoutResume st env (AwaitingVariant cartId unicityId cart line rest errors)
            (VariantAnswer (Inl thrown)) =
          (Returned (CheckoutError thrown), checkoutRelease st cartId)"
    by (simp add: checkoutReturn_def)
  have e: "distinct (map taskCartId (sys_tasks sys))"
    "checkoutLocks (sys_shop sys) = set (map taskCartId (sys_tasks sys))"
    using inv by (simp_all add: lockInv_def)
  have f: "i < length (sys_tasks sys) \<longrightarrow>
           systemStep sys (CallCheckout (taskCartId (sys_tasks sys ! i)) unicityId) =
             sys\<lparr>sys_returned := sys_returned sys @
                    [(taskCartId (sys_tasks sys ! i), CheckoutInProgress)]\<rparr>"
    using racing_call[OF inv] by blast
  have g: "checkoutDrive (snd (checkoutEnter st cartId unicityId)) env
            (fst (checkoutEnter st cartId unicityId)) =
          checkout_with_unicity st env cartId unicityId"
    by (simp add: checkout_with_unicity_def)
  have h: "cartId \<notin> checkoutLocks st \<longrightarrow>
           checkoutLocks (snd (checkout_with_unicity st env cartId unicityId)) = checkoutLocks st"
    using checkout_releases by blast
  show ?thesis
    using a b c d e f g h by (intro conjI)
qed

lemma systemRun_append: "systemRun sys (xs @ ys) = systemRun (systemRun sys xs) ys"
  by (simp add: systemRun_def)

lemma systemRun_one: "systemRun sys [a] = systemStep sys a"
  by (simp add: systemRun_def)

lemma run_aliceWaits:
  "systemRun (startSystem exampleShop) [CallCheckout ''cart-1'' ''@alice''] = aliceWaits"
proof -
  have free: "''cart-1'' \<notin> checkoutLocks exampleShop"
    by (simp add: exampleShop_def)
  have same: "clearCheckoutLocks exampleShop = exampleShop"
    by (simp add: exampleShop_def clearCheckoutLocks_def)
  have e: "checkoutEnter exampleShop ''cart-1'' ''@alice'' =
             (Suspended (AwaitingVariant ''cart-1'' ''@alice'' exampleCart
                           (hd (c_lines exampleCart)) [] []),
              exampleShop\<lparr>checkoutLocks := {''cart-1''}\<rparr>)"
    unfolding enter_free[OF free]
    by (simp add: exampleShop_def getCart_def exampleCart_def)
  show ?thesis
    by (simp add: systemRun_def startSystem_def same e aliceWaits_def)
qed

lemma run_racing:
  "systemStep aliceWaits (CallCheckout ''cart-1'' ''@bob'') =
     aliceWaits\<lparr>sys_returned := [(''cart-1'', CheckoutInProgress)]\<rparr>"
  by (simp add: aliceWaits_def enter_locked)

lemma run_answers:
  "systemRun (aliceWaits\<lparr>sys_returned := [(''cart-1'', CheckoutInProgress)]\<rparr>)
     [Answered 0 (exampleEnv knownCustomer (Inr ''evt-1'')) (VariantAnswer (Inr (Some inStock))),
      Answered 0 (exampleEnv knownCustomer (Inr ''evt-1'')) (RequestAnswer (Inr exampleRequest))] =
   \<lparr>sys_shop = snd (checkout_with_unicity exampleShop
                      (exampleEnv knownCustomer (Inr ''evt-1'')) ''cart-1'' ''@alice''),
    sys_tasks = [],
    sys_returned = [(''cart-1'', CheckoutInProgress), (''cart-1'', RequestSent exampleRequest)]\<rparr>"
proof -
  have i: "isConnected connectedService"
    by (simp add: isConnected_def connectedService_def)
  have c: "c_subtotalCents exampleCart = 4999" "c_currency exampleCart = ''AED''"
    by (simp_all add: exampleCart_def)
  have v: "inventoryIssue (hd (c_lines exampleCart)) (Some inStock) = []"
    by (simp add: inventoryIssue_def inStock_def exampleCart_def)
  show ?thesis
    unfolding example_checkout_ok
    by (simp add: systemRun_def aliceWaits_def v checkoutInventory_def checkoutAfterInventory_def
          checkoutReturn_def checkoutRelease_def existingOrderGuard_def getOrderByCartId_def
          exampleShop_def i)
       (simp add: recordCheckout_def trackOrder_def markAwaitingPayment_def
          lockCartForCheckout_def Let_def c exampleEnv_def exampleRequest_def)
qed

lemma run_thrown:
  "systemStep aliceWaits
     (Answered 0 (exampleEnv knownCustomer (Inr ''evt-1''))
        (VariantAnswer (Inl ''Shopify GraphQL error''))) =
   \<lparr>sys_shop = exampleShop, sys_tasks = [],
    sys_returned = [(''cart-1'', CheckoutError ''Shopify GraphQL error'')]\<rparr>"
  by (simp add: aliceWaits_def checkoutReturn_def checkoutRelease_def exampleShop_def)

theorem checkout_lock_discipline_witness:
  "sys_tasks (systemRun (startSystem exampleShop) [CallCheckout ''cart-1'' ''@alice'']) =
     [AwaitingVariant ''cart-1'' ''@alice'' exampleCart (hd (c_lines exampleCart)) [] []]
   \<and> checkoutLocks (sys_shop (systemRun (startSystem exampleShop)
        [CallCheckout ''cart-1'' ''@alice''])) = {''cart-1''}
   \<and> systemRun (startSystem exampleShop)
        [CallCheckout ''cart-1'' ''@alice'', CallCheckout ''cart-1'' ''@bob''] =
      aliceWaits\<lparr>sys_returned := [(''cart-1'', CheckoutInProgress)]\<rparr>
   \<and> sys_returned (systemRun (startSystem exampleShop)
        [CallCheckout ''cart-1'' ''@alice'', CallCheckout ''cart-1'' ''@bob'',
         Answered 0 (exampleEnv knownCustomer (Inr ''evt-1''))
           (VariantAnswer (Inr (Some inStock))),
         Answered 0 (exampleEnv knownCustomer (Inr ''evt-1''))
           (RequestAnswer (Inr exampleRequest))]) =
      [(''cart-1'', CheckoutInProgress), (''cart-1'', RequestSent exampleRequest)]
   \<and> checkoutLocks (sys_shop (systemRun (startSystem exampleShop)
        [CallCheckout ''cart-1'' ''@alice'', CallCheckout ''cart-1'' ''@bob'',
         Answered 0 (exampleEnv knownCustomer (Inr ''evt-1''))
           (VariantAnswer (Inr (Some inStock))),
         Answered 0 (exampleEnv knownCustomer (Inr ''evt-1''))
           (RequestAnswer (Inr exampleRequest))])) = {}
   \<and> sys_returned (systemRun (startSystem exampleShop)
        [CallCheckout ''cart-1'' ''@alice'',
         Answered 0 (exampleEnv knownCustomer (Inr ''evt-1''))
           (VariantAnswer (Inl ''Shopify GraphQL error''))]) =
      [(''cart-1'', CheckoutError ''Shopify GraphQL error'')]
   \<and> checkoutLocks (sys_shop (systemRun (startSystem exampleShop)
        [CallCheckout ''cart-1'' ''@alice'',
         Answered 0 (exampleEnv knownCustomer (Inr ''evt-1''))
           (VariantAnswer (Inl ''Shopify GraphQL error''))])) = {}"
proof -
  let ?env = "exampleEnv knownCustomer (Inr ''evt-1'')"
  let ?one = "[CallCheckout ''cart-1'' ''@alice'']"
  let ?all = "[CallCheckout ''cart-1'' ''@alice'', CallCheckout ''cart-1'' ''@bob'',
               Answered 0 ?env (VariantAnswer (Inr (Some inStock))),
               Answered 0 ?env (RequestAnswer (Inr exampleRequest))]"
  let ?thrown = "[CallCheckout ''cart-1'' ''@alice'',
                  Answered 0 ?env (VariantAnswer (Inl ''Shopify GraphQL error''))]"
  have t1: "sys_tasks (systemRun (startSystem exampleShop) ?one) =
              [AwaitingVariant ''cart-1'' ''@alice'' exampleCart (hd (c_lines exampleCart)) [] []]"
    by (simp add: run_aliceWaits aliceWaits_def)
  have l1: "checkoutLocks (sys_shop (systemRun (startSystem exampleShop) ?one)) = {''cart-1''}"
    using checkout_lock_discipline[OF refl, where loaded = exampleShop and acts = ?one] t1 by simp
  have tc: "taskCartId (sys_tasks aliceWaits ! 0) = ''cart-1''" "sys_returned aliceWaits = []"
    "0 < length (sys_tasks aliceWaits)"
    by (simp_all add: aliceWaits_def)
  have r2: "systemRun (startSystem exampleShop)
              [CallCheckout ''cart-1'' ''@alice'', CallCheckout ''cart-1'' ''@bob''] =
            aliceWaits\<lparr>sys_returned := [(''cart-1'', CheckoutInProgress)]\<rparr>"
  proof -
    have step: "systemStep aliceWaits (CallCheckout ''cart-1'' ''@bob'') =
            aliceWaits\<lparr>sys_returned := [(''cart-1'', CheckoutInProgress)]\<rparr>"
      using checkout_lock_discipline[OF refl, where loaded = exampleShop and acts = ?one and i = 0
          and unicityId = "''@bob''", unfolded run_aliceWaits tc(1,2) append_Nil] tc(3)
      by blast
    have "systemRun (systemRun (startSystem exampleShop) ?one)
                 [CallCheckout ''cart-1'' ''@bob''] =
               aliceWaits\<lparr>sys_returned := [(''cart-1'', CheckoutInProgress)]\<rparr>"
      by (simp only: run_aliceWaits systemRun_one[of aliceWaits] step)
    then show ?thesis
      unfolding systemRun_append[symmetric] by simp
  qed
  have all: "systemRun (startSystem exampleShop) ?all =
     \<lparr>sys_shop = snd (checkout_with_unicity exampleShop ?env ''cart-1'' ''@alice''),
      sys_tasks = [],
      sys_returned = [(''cart-1'', CheckoutInProgress), (''cart-1'', RequestSent exampleRequest)]\<rparr>"
  proof -
    have "systemRun (systemRun (startSystem exampleShop)
                       [CallCheckout ''cart-1'' ''@alice'', CallCheckout ''cart-1'' ''@bob''])
            [Answered 0 ?env (VariantAnswer (Inr (Some inStock))),
             Answered 0 ?env (RequestAnswer (Inr exampleRequest))] =
          \<lparr>sys_shop = snd (checkout_with_unicity exampleShop ?env ''cart-1'' ''@alice''),
           sys_tasks = [],
           sys_returned = [(''cart-1'', CheckoutInProgress),
                           (''cart-1'', RequestSent exampleRequest)]\<rparr>"
      unfolding r2 by (rule run_answers)
    then show ?thesis
      unfolding systemRun_append[symmetric] by simp
  qed
  have l4: "checkoutLocks (sys_shop (systemRun (startSystem exampleShop) ?all)) = {}"
    using checkout_lock_discipline[OF refl, where loaded = exampleShop and acts = ?all]
    by (simp add: all)
  have th: "systemRun (startSystem exampleShop) ?thrown =
     \<lparr>sys_shop = exampleShop, sys_tasks = [],
      sys_returned = [(''cart-1'', CheckoutError ''Shopify GraphQL error'')]\<rparr>"
  proof -
    have "systemRun (systemRun (startSystem exampleShop) ?one)
            [Answered 0 ?env (VariantAnswer (Inl ''Shopify GraphQL error''))] =
          \<lparr>sys_shop = exampleShop, sys_tasks = [],
           sys_returned = [(''cart-1'', CheckoutError ''Shopify GraphQL error'')]\<rparr>"
      by (simp only: run_aliceWaits systemRun_one[of aliceWaits] run_thrown)
    then show ?thesis
      unfolding systemRun_append[symmetric] by simp
  qed
  have l5: "checkoutLocks (sys_shop (systemRun (startSystem exampleShop) ?thrown)) = {}"
    using checkout_lock_discipline[OF refl, where loaded = exampleShop and acts = ?thrown]
    by (simp add: th)
  show ?thesis
    using t1 l1 r2 l4 l5 by (simp add: all th)
qed

section \<open>Request before order\<close>

text \<open>
  Claim C5 (as amended). Whenever \<open>checkout_with_unicity\<close> answers with an error, a failed
  alias resolution or a failed request among them, it leaves the whole shop as it was: no
  order is created or changed and the lock flag of the cart is untouched. When it answers
  that the request was sent, \<open>sendPaymentRequest\<close> has returned that very request, the order
  of the cart is the new one, awaiting payment under the event id of the request and the
  alias given, and the cart is locked.
\<close>

theorem checkout_requests_before_order:
  "(checkoutIsError (fst (checkout_with_unicity st env cartId unicityId)) \<longrightarrow>
      snd (checkout_with_unicity st env cartId unicityId) = st)
   \<and> (checkout_with_unicity st env cartId unicityId = (RequestSent paymentRequest, st') \<longrightarrow>
      (\<exists>cart. getCart (cartStore st) cartId = Some cart
         \<and> sendPaymentRequest (nostrService st) (env_lookup env) (env_issue env) cartId unicityId
              (c_subtotalCents cart) = Inr paymentRequest
         \<and> getOrderByCartId (orderStore st') cartId =
              Some \<lparr>o_id = env_orderUuid env, o_cartId = cartId, o_status = AwaitingPayment,
                    o_totalAmountCents = c_subtotalCents cart, o_currency = c_currency cart,
                    o_paymentEventId = Some (pr_eventId paymentRequest),
                    o_unicityId = Some unicityId, o_createdAt = env_orderTime env,
                    o_updatedAt = env_awaitingTime env, o_paidAt = None\<rparr>)
      \<and> isCartLocked (cartStore st') cartId)"
proof (intro conjI impI)
  assume "checkoutIsError (fst (checkout_with_unicity st env cartId unicityId))"
  then show "snd (checkout_with_unicity st env cartId unicityId) = st"
    by (rule checkout_error_unchanged)
next
  let ?l = "st\<lparr>checkoutLocks := insert cartId (checkoutLocks st)\<rparr>"
  assume sent: "checkout_with_unicity st env cartId unicityId = (RequestSent paymentRequest, st')"
  have free: "cartId \<notin> checkoutLocks st"
    using sent checkout_in_progress[of cartId st env unicityId] by auto
  obtain r m where b: "checkoutBody ?l env cartId unicityId = (r, m)"
    by (cases "checkoutBody ?l env cartId unicityId")
  have r: "r = RequestSent paymentRequest" and st': "st' = checkoutRelease m cartId"
    using sent free b by (simp_all add: checkout_unfold checkoutAcquire_def)
  obtain cart where cart: "getCart (cartStore ?l) cartId = Some cart"
    and send: "sendPaymentRequest (nostrService ?l) (env_lookup env) (env_issue env) cartId
                 unicityId (c_subtotalCents cart) = Inr paymentRequest"
    and m: "m = recordCheckout ?l env cartId unicityId cart paymentRequest"
    using checkoutBody_sent[of ?l env cartId unicityId paymentRequest m] b r by auto
  have o: "getOrderByCartId (orderStore st') cartId =
              Some \<lparr>o_id = env_orderUuid env, o_cartId = cartId, o_status = AwaitingPayment,
                    o_totalAmountCents = c_subtotalCents cart, o_currency = c_currency cart,
                    o_paymentEventId = Some (pr_eventId paymentRequest),
                    o_unicityId = Some unicityId, o_createdAt = env_orderTime env,
                    o_updatedAt = env_awaitingTime env, o_paidAt = None\<rparr>"
    using recordCheckout_order(1)[OF cart, of env unicityId paymentRequest]
    by (simp add: st' m checkoutRelease_def)
  show "\<exists>cart. getCart (cartStore st) cartId = Some cart
         \<and> sendPaymentRequest (nostrService st) (env_lookup env) (env_issue env) cartId unicityId
              (c_subtotalCents cart) = Inr paymentRequest
         \<and> getOrderByCartId (orderStore st') cartId =
              Some \<lparr>o_id = env_orderUuid env, o_cartId = cartId, o_status = AwaitingPayment,
                    o_totalAmountCents = c_subtotalCents cart, o_currency = c_currency cart,
                    o_paymentEventId = Some (pr_eventId paymentRequest),
                    o_unicityId = Some unicityId, o_createdAt = env_orderTime env,
                    o_updatedAt = env_awaitingTime env, o_paidAt = None\<rparr>"
    using cart send o by auto
  show "isCartLocked (cartStore st') cartId"
    using recordCheckout_order(2)[OF cart, of env unicityId paymentRequest]
    by (simp add: st' m checkoutRelease_def)
qed

lemma example_checkout_unresolved:
  "checkout_with_unicity st (exampleEnv neverFound (Inr ''evt-1'')) ''cart-1'' ''@alice'' =
     (SendFailed (CouldNotResolve ''alice''), st)"
  if "checkoutLocks st = {}" "cartStore st = [(''cart-1'', exampleCart)]"
     "existingOrderGuard (orderStore st) ''cart-1'' = None" "nostrService st = connectedService"
proof -
  have s: "sendPaymentRequest connectedService
             (env_lookup (exampleEnv neverFound (Inr ''evt-1'')))
             (env_issue (exampleEnv neverFound (Inr ''evt-1'')))
             ''cart-1'' ''@alice'' 4999 = Inl (CouldNotResolve ''alice'')"
    using send_unresolved by (simp add: exampleEnv_def)
  have c: "c_lines exampleCart \<noteq> []" "c_subtotalCents exampleCart = 4999"
    by (simp_all add: exampleCart_def)
  have i: "isConnected connectedService" by (simp add: isConnected_def connectedService_def)
  have "st\<lparr>checkoutLocks := {}\<rparr> = st" using that(1) by simp
  then show ?thesis
    using that
    by (simp add: checkout_unfold checkoutAcquire_def checkoutBody_def
        checkoutRelease_def getCart_def example_inventory_ok s c i)
qed

lemma example_checkout_refused:
  "checkout_with_unicity exampleShop
      (exampleEnv knownCustomer (Inl ''relay down'')) ''cart-1'' ''@alice'' =
     (SendFailed (RequestFailed ''relay down''), exampleShop)"
proof -
  have s: "sendPaymentRequest connectedService
             (env_lookup (exampleEnv knownCustomer (Inl ''relay down'')))
             (env_issue (exampleEnv knownCustomer (Inl ''relay down'')))
             ''cart-1'' ''@alice'' 4999 = Inl (RequestFailed ''relay down'')"
    using send_refused by (simp add: exampleEnv_def)
  have c: "c_lines exampleCart \<noteq> []" "c_subtotalCents exampleCart = 4999"
    by (simp_all add: exampleCart_def)
  have i: "isConnected connectedService" by (simp add: isConnected_def connectedService_def)
  show ?thesis
    by (simp add: checkout_unfold checkoutAcquire_def checkoutBody_def
        checkoutRelease_def exampleShop_def getCart_def example_inventory_ok
        existingOrderGuard_def getOrderByCartId_def s c i)
qed

theorem checkout_requests_before_order_witness:
  "checkout_with_unicity exampleShop
      (exampleEnv knownCustomer (Inl ''relay down'')) ''cart-1'' ''@alice''
     = (SendFailed (RequestFailed ''relay down''), exampleShop)
   \<and> checkout_with_unicity exampleShop
      (exampleEnv neverFound (Inr ''evt-1'')) ''cart-1'' ''@alice''
     = (SendFailed (CouldNotResolve ''alice''), exampleShop)
   \<and> getOrderByCartId (orderStore exampleShop) ''cart-1'' = None
   \<and> \<not> isCartLocked (cartStore exampleShop) ''cart-1''
   \<and> getOrderByCartId (orderStore (snd (checkout_with_unicity exampleShop
        (exampleEnv knownCustomer (Inr ''evt-1'')) ''cart-1'' ''@alice'')))
        ''cart-1''
     = Some \<lparr>o_id = ''order-1'', o_cartId = ''cart-1'', o_status = AwaitingPayment,
          o_totalAmountCents = 4999, o_currency = ''AED'', o_paymentEventId = Some ''evt-1'',
          o_unicityId = Some ''@alice'', o_createdAt = 10, o_updatedAt = 11, o_paidAt = None\<rparr>
   \<and> isCartLocked (cartStore (snd (checkout_with_unicity exampleShop
        (exampleEnv knownCustomer (Inr ''evt-1'')) ''cart-1'' ''@alice'')))
        ''cart-1''"
proof -
  let ?ok = "exampleEnv knownCustomer (Inr ''evt-1'')"
  let ?down = "exampleEnv knownCustomer (Inl ''relay down'')"
  let ?unknown = "exampleEnv neverFound (Inr ''evt-1'')"
  have r1: "fst (checkout_with_unicity exampleShop ?down ''cart-1'' ''@alice'')
              = SendFailed (RequestFailed ''relay down'')"
    by (simp add: example_checkout_refused)
  have r2: "fst (checkout_with_unicity exampleShop ?unknown ''cart-1'' ''@alice'')
              = SendFailed (CouldNotResolve ''alice'')"
    by (subst example_checkout_unresolved)
       (simp_all add: exampleShop_def existingOrderGuard_def getOrderByCartId_def)
  have u1: "snd (checkout_with_unicity exampleShop ?down ''cart-1'' ''@alice'') = exampleShop"
    using checkout_requests_before_order[of exampleShop ?down "''cart-1''" "''@alice''"] r1
    by simp
  have u2: "snd (checkout_with_unicity exampleShop ?unknown ''cart-1'' ''@alice'') = exampleShop"
    using checkout_requests_before_order[of exampleShop ?unknown "''cart-1''" "''@alice''"] r2
    by simp
  obtain pr st' where ok: "checkout_with_unicity exampleShop ?ok ''cart-1'' ''@alice''
                             = (RequestSent pr, st')"
    and pr: "pr_eventId pr = ''evt-1''"
    using example_checkout_ok by simp
  have g: "getCart (cartStore exampleShop) ''cart-1'' = Some exampleCart"
    by (simp add: exampleShop_def getCart_def)
  have s3: "getOrderByCartId (orderStore st') ''cart-1'' =
      Some \<lparr>o_id = ''order-1'', o_cartId = ''cart-1'', o_status = AwaitingPayment,
          o_totalAmountCents = 4999, o_currency = ''AED'', o_paymentEventId = Some ''evt-1'',
          o_unicityId = Some ''@alice'', o_createdAt = 10, o_updatedAt = 11, o_paidAt = None\<rparr>"
    and s4: "isCartLocked (cartStore st') ''cart-1''"
    using checkout_requests_before_order[of exampleShop ?ok "''cart-1''" "''@alice''" pr st'] ok pr g
    by (auto simp: exampleEnv_def exampleCart_def)
  have n: "getOrderByCartId (orderStore exampleShop) ''cart-1'' = None"
    "\<not> isCartLocked (cartStore exampleShop) ''cart-1''"
    by (simp_all add: exampleShop_def getOrderByCartId_def isCartLocked_def exampleCart_def)
  show ?thesis
    using r1 u1 r2 u2 s3 s4 n ok by (simp add: prod_eq_iff)
qed

text \<open>
  The claim's wording, that no order exists for the cart after a failed request, fails for a
  retry: an order left in \<open>payment_timeout\<close> passes the guard and is still there after the
  alias could not be resolved.
\<close>

theorem failed_retry_leaves_old_order:
  "existingOrderGuard [(''cart-1'', exampleOrder PaymentTimedOut)] ''cart-1'' = None
   \<and> fst (checkout_with_unicity
        (exampleShop\<lparr>orderStore := [(''cart-1'', exampleOrder PaymentTimedOut)]\<rparr>)
        (exampleEnv neverFound (Inr ''evt-1'')) ''cart-1'' ''@alice'')
     = SendFailed (CouldNotResolve ''alice'')
   \<and> getOrderByCartId (orderStore (snd (checkout_with_unicity
        (exampleShop\<lparr>orderStore := [(''cart-1'', exampleOrder PaymentTimedOut)]\<rparr>)
        (exampleEnv neverFound (Inr ''evt-1'')) ''cart-1'' ''@alice''))) ''cart-1''
     = Some (exampleOrder PaymentTimedOut)"
proof -
  have g: "existingOrderGuard [(''cart-1'', exampleOrder PaymentTimedOut)] ''cart-1'' = None"
    by (simp add: existingOrderGuard_def getOrderByCartId_def exampleOrder_def)
  have "checkout_with_unicity
        (exampleShop\<lparr>orderStore := [(''cart-1'', exampleOrder PaymentTimedOut)]\<rparr>)
        (exampleEnv neverFound (Inr ''evt-1'')) ''cart-1'' ''@alice''
     = (SendFailed (CouldNotResolve ''alice''),
        exampleShop\<lparr>orderStore := [(''cart-1'', exampleOrder PaymentTimedOut)]\<rparr>)"
    by (rule example_checkout_unresolved) (simp_all add: exampleShop_def g)
  then show ?thesis using g by (simp add: getOrderByCartId_def)
qed

section \<open>Order status and the wait window\<close>

text \<open>
  Claim C6 (as amended). On an order that exists, \<open>updateOrderStatus\<close> sets the requested
  status whatever the status was, refreshes \<open>updatedAt\<close>, and stamps \<open>paidAt\<close> exactly when the
  new status is \<open>paid\<close>; \<open>markAwaitingPayment\<close> likewise sets \<open>awaiting_payment\<close> with the
  event id and the alias and refreshes \<open>updatedAt\<close>; \<open>markPaid\<close>, \<open>markCancelled\<close> and
  \<open>markPaymentTimeout\<close> are \<open>updateOrderStatus\<close> at their status. None of them looks at the
  current status.
\<close>

theorem tracker_status_updates:
  assumes "getOrderByCartId os cartId = Some order"
  shows "updateOrderStatus os now paidNow cartId status =
           (Some (order\<lparr>o_status := status, o_updatedAt := now,
                         o_paidAt := (if status = Paid then Some paidNow else o_paidAt order)\<rparr>),
            AList.update cartId
              (order\<lparr>o_status := status, o_updatedAt := now,
                     o_paidAt := (if status = Paid then Some paidNow else o_paidAt order)\<rparr>) os)
     \<and> getOrderByCartId (snd (updateOrderStatus os now paidNow cartId status)) cartId =
           Some (order\<lparr>o_status := status, o_updatedAt := now,
                        o_paidAt := (if status = Paid then Some paidNow else o_paidAt order)\<rparr>)
     \<and> markAwaitingPayment os now cartId eventId unicityId =
           (Some (order\<lparr>o_status := AwaitingPayment, o_paymentEventId := Some eventId,
                         o_unicityId := Some unicityId, o_updatedAt := now\<rparr>),
            AList.update cartId
              (order\<lparr>o_status := AwaitingPayment, o_paymentEventId := Some eventId,
                     o_unicityId := Some unicityId, o_updatedAt := now\<rparr>) os)
     \<and> getOrderByCartId (snd (markAwaitingPayment os now cartId eventId unicityId)) cartId =
           Some (order\<lparr>o_status := AwaitingPayment, o_paymentEventId := Some eventId,
                        o_unicityId := Some unicityId, o_updatedAt := now\<rparr>)
     \<and> map_option o_status (fst (markPaid os now paidNow cartId)) = Some Paid
     \<and> map_option o_paidAt (fst (markPaid os now paidNow cartId)) = Some (Some paidNow)
     \<and> map_option o_updatedAt (fst (markPaid os now paidNow cartId)) = Some now
     \<and> map_option o_status (fst (markCancelled os now paidNow cartId)) = Some Cancelled
     \<and> map_option o_updatedAt (fst (markCancelled os now paidNow cartId)) = Some now
     \<and> map_option o_status (fst (markPaymentTimeout os now paidNow cartId)) = Some PaymentTimedOut
     \<and> map_option o_updatedAt (fst (markPaymentTimeout os now paidNow cartId)) = Some now"
proof -
  have m: "map_of os cartId = Some order" using assms by (simp add: getOrderByCartId_def)
  show ?thesis
    by (simp add: updateOrderStatus_existing[OF m] markAwaitingPayment_existing[OF m]
        markPaid_def markCancelled_def markPaymentTimeout_def getOrderByCartId_def update_conv')
qed

theorem tracker_status_updates_witness:
  "getOrderByCartId [(''cart-1'', exampleOrder AwaitingPayment)] ''cart-1''
     = Some (exampleOrder AwaitingPayment)
   \<and> fst (updateOrderStatus [(''cart-1'', exampleOrder AwaitingPayment)] 20 21 ''cart-1'' Paid)
     = Some ((exampleOrder AwaitingPayment)\<lparr>o_status := Paid, o_updatedAt := 20,
                                               o_paidAt := Some 21\<rparr>)
   \<and> fst (updateOrderStatus [(''cart-1'', exampleOrder AwaitingPayment)] 20 21 ''cart-1''
            PaymentTimedOut)
     = Some ((exampleOrder AwaitingPayment)\<lparr>o_status := PaymentTimedOut, o_updatedAt := 20,
                                               o_paidAt := None\<rparr>)"
proof -
  have g: "getOrderByCartId [(''cart-1'', exampleOrder AwaitingPayment)] ''cart-1''
             = Some (exampleOrder AwaitingPayment)"
    by (simp add: getOrderByCartId_def)
  show ?thesis
    using tracker_status_updates[OF g, of 20 21 Paid]
          tracker_status_updates[OF g, of 20 21 PaymentTimedOut] g
    by (simp add: exampleOrder_def)
qed

text \<open>
  So the tracker does not keep the order of the life cycle: \<open>markAwaitingPayment\<close> takes a
  paid order back to \<open>awaiting_payment\<close>, and \<open>markCancelled\<close> cancels it.
\<close>

theorem paid_order_returns_to_awaiting:
  "o_status (exampleOrder Paid) = Paid
   \<and> terminalStatus (o_status (exampleOrder Paid))
   \<and> map_option o_status
        (fst (markAwaitingPayment [(''cart-1'', exampleOrder Paid)] 30 ''cart-1'' ''evt-2'' ''@bob''))
     = Some AwaitingPayment
   \<and> map_option o_status
        (getOrderByCartId
           (snd (markAwaitingPayment [(''cart-1'', exampleOrder Paid)] 30 ''cart-1'' ''evt-2''
                   ''@bob'')) ''cart-1'')
     = Some AwaitingPayment
   \<and> map_option o_status
        (fst (markCancelled [(''cart-1'', exampleOrder Paid)] 30 31 ''cart-1''))
     = Some Cancelled"
  by (simp add: markAwaitingPayment_def markCancelled_def updateOrderStatus_def
      getOrderByCartId_def terminalStatus_def exampleOrder_def Let_def)

text \<open>
  Claim C9. The effective wait of \<open>confirm_payment\<close> is
  \<open>min (max waitSeconds 0) 120\<close> (0 when absent): it lies in [0, 120], is the input inside
  that interval, 0 below it and 120 above it, so 500 becomes 120. It is this value that is
  used: whenever the handler registers a wait, the timer of that wait runs for the effective
  wait times 1000 milliseconds, and the effective wait is positive.
\<close>

theorem confirm_payment_clamps_wait:
  "effectiveWaitSeconds waitSeconds
      = min (max (case waitSeconds of Some w \<Rightarrow> w | None \<Rightarrow> 0) 0) 120
   \<and> 0 \<le> effectiveWaitSeconds waitSeconds \<and> effectiveWaitSeconds waitSeconds \<le> 120
   \<and> effectiveWaitSeconds None = 0
   \<and> (w < 0 \<longrightarrow> effectiveWaitSeconds (Some w) = 0)
   \<and> (0 \<le> w \<and> w \<le> 120 \<longrightarrow> effectiveWaitSeconds (Some w) = w)
   \<and> (120 < w \<longrightarrow> effectiveWaitSeconds (Some w) = 120)
   \<and> effectiveWaitSeconds (Some 500) = 120
   \<and> (confirmStart st env cartId waitSeconds = (Waiting n order eventId seconds, st') \<longrightarrow>
        seconds = effectiveWaitSeconds waitSeconds
        \<and> 0 < seconds
        \<and> n = length (waiters (nostrService st))
        \<and> waiters (nostrService st') = waiters (nostrService st) @
             [\<lparr>w_eventId = eventId, w_timeout = effectiveWaitSeconds waitSeconds * 1000,
               w_timer = Armed, w_promise = None\<rparr>])"
proof -
  have r: "0 \<le> effectiveWaitSeconds waitSeconds \<and> effectiveWaitSeconds waitSeconds \<le> 120"
    by (rule effectiveWaitSeconds_range)
  have c: "confirmStart st env cartId waitSeconds = (Waiting n order eventId seconds, st') \<longrightarrow>
        seconds = effectiveWaitSeconds waitSeconds
        \<and> 0 < seconds
        \<and> n = length (waiters (nostrService st))
        \<and> waiters (nostrService st') = waiters (nostrService st) @
             [\<lparr>w_eventId = eventId, w_timeout = effectiveWaitSeconds waitSeconds * 1000,
               w_timer = Armed, w_promise = None\<rparr>]"
  proof
    assume "confirmStart st env cartId waitSeconds = (Waiting n order eventId seconds, st')"
    from confirmStart_timeout[OF this] r show "seconds = effectiveWaitSeconds waitSeconds
        \<and> 0 < seconds
        \<and> n = length (waiters (nostrService st))
        \<and> waiters (nostrService st') = waiters (nostrService st) @
             [\<lparr>w_eventId = eventId, w_timeout = effectiveWaitSeconds waitSeconds * 1000,
               w_timer = Armed, w_promise = None\<rparr>]"
      by auto
  qed
  show ?thesis
    using r c effectiveWaitSeconds_cases
    by (simp add: effectiveWaitSeconds_def)
qed

lemma example_confirmStart:
  "confirmStart awaitingShop exampleConfirmEnv ''cart-1'' (Some 500) =
     (Waiting 1 (exampleOrder AwaitingPayment) ''evt-1'' 120,
      awaitingShop\<lparr>nostrService := waitingService\<lparr>
        pendingPayments := [(''evt-1'', pendingEntry\<lparr>pp_createdAt := 40, pp_waiter := 1\<rparr>)],
        waiters := waiters waitingService @
           [\<lparr>w_eventId = ''evt-1'', w_timeout = 120000, w_timer = Armed, w_promise = None\<rparr>]\<rparr>\<rparr>)"
  by (simp add: confirmStart_def awaitingShop_def getOrderByCartId_def exampleOrder_def
        isConnected_def waitingService_def getConfirmedPayment_def effectiveWaitSeconds_def
        getPendingPaymentByCartId_def confirmWait_def waitForPayment_def exampleConfig_def
        exampleConfirmEnv_def normalizeId_def pendingEntry_def Let_def)

theorem confirm_payment_clamps_wait_witness:
  "effectiveWaitSeconds (Some 500) = 120
   \<and> effectiveWaitSeconds (Some (- 5)) = 0
   \<and> effectiveWaitSeconds (Some 30) = 30
   \<and> fst (confirmStart awaitingShop exampleConfirmEnv ''cart-1'' (Some 500))
        = Waiting 1 (exampleOrder AwaitingPayment) ''evt-1'' 120
   \<and> w_timeout (waiters (nostrService
        (snd (confirmStart awaitingShop exampleConfirmEnv ''cart-1'' (Some 500)))) ! 1) = 120000"
proof -
  note c = confirm_payment_clamps_wait
  have a: "effectiveWaitSeconds (Some 500) = 120"
    using c[where waitSeconds = "Some 500" and w = 500] by simp
  have b: "effectiveWaitSeconds (Some (- 5)) = 0"
    using c[where waitSeconds = "Some (- 5)" and w = "- 5"] by simp
  have d: "effectiveWaitSeconds (Some 30) = 30"
    using c[where waitSeconds = "Some 30" and w = 30] by simp
  have e: "waiters (nostrService
        (snd (confirmStart awaitingShop exampleConfirmEnv ''cart-1'' (Some 500)))) =
      waiters (nostrService awaitingShop) @
        [\<lparr>w_eventId = ''evt-1'', w_timeout = effectiveWaitSeconds (Some 500) * 1000,
          w_timer = Armed, w_promise = None\<rparr>]"
    using c[where waitSeconds = "Some 500" and st = awaitingShop and env = exampleConfirmEnv
              and cartId = "''cart-1''" and n = 1 and order = "exampleOrder AwaitingPayment"
              and eventId = "''evt-1''" and seconds = 120
              and st' = "snd (confirmStart awaitingShop exampleConfirmEnv ''cart-1'' (Some 500))"]
    by (simp add: example_confirmStart)
  have f: "fst (confirmStart awaitingShop exampleConfirmEnv ''cart-1'' (Some 500))
        = Waiting 1 (exampleOrder AwaitingPayment) ''evt-1'' 120"
    by (simp add: example_confirmStart)
  have g: "w_timeout (waiters (nostrService
        (snd (confirmStart awaitingShop exampleConfirmEnv ''cart-1'' (Some 500)))) ! 1) = 120000"
    unfolding e a by (simp add: awaitingShop_def waitingService_def)
  show ?thesis using a b d f g by simp
qed

section \<open>Two waits under one event id\<close>

lemma checkedOutShop_eq:
  "checkedOutShop =
     exampleShop\<lparr>orderStore := [(''cart-1'', checkedOutOrder)],
       cartStore := [(''cart-1'',
          exampleCart\<lparr>c_lockedForCheckout := Some True, c_updatedAt := 12\<rparr>)]\<rparr>"
  by (simp add: checkedOutShop_def example_checkout_ok checkedOutOrder_def)

lemma resolve_alice:
  "resolveUnicityId True knownCustomer ''@alice'' =
     Inr (Some ''customer-pubkey-hex'', [Query ''alice''])"
  by (simp add: resolveUnicityId_def resolvePubkeyWithRetry_def retryLoop_immediate
      normalizeId_def truthy_def knownCustomer_def)

lemma firstConfirm_eq:
  "firstConfirm =
     (Waiting 0 checkedOutOrder ''evt-1'' 30, checkedOutShop\<lparr>nostrService := firstWaiting\<rparr>)"
proof -
  have o: "getOrderByCartId (orderStore checkedOutShop) ''cart-1'' = Some checkedOutOrder"
    "nostrService checkedOutShop = connectedService"
    by (simp_all add: checkedOutShop_eq getOrderByCartId_def exampleShop_def)
  have c: "isConnected connectedService" "getConfirmedPayment connectedService ''cart-1'' = None"
    "getPendingPaymentByCartId connectedService ''cart-1'' = None" "client connectedService"
    by (simp_all add: isConnected_def getConfirmedPayment_def getPendingPaymentByCartId_def
        connectedService_def)
  have f: "o_status checkedOutOrder = AwaitingPayment"
    "o_paymentEventId checkedOutOrder = Some ''evt-1''"
    "o_unicityId checkedOutOrder = Some ''@alice''" "o_totalAmountCents checkedOutOrder = 4999"
    by (simp_all add: checkedOutOrder_def)
  have w: "waitForPayment connectedService 40 ''cart-1'' ''evt-1'' ''@alice''
             ''customer-pubkey-hex'' 4999 (Some 30000) = (WaitPending 0, firstWaiting)"
    by (simp add: waitForPayment_def connectedService_def firstWaiting_def pendingEntry_def
        normalizeId_def exampleConfig_def Let_def)
  show ?thesis
    by (simp add: firstConfirm_def confirmStart_def o c f effectiveWaitSeconds_def
        confirmReRegister_def resolve_alice confirmWait_def exampleConfirmEnv_def truthy_def w)
qed

lemma secondConfirm_eq:
  "secondConfirm =
     (Waiting 1 checkedOutOrder ''evt-1'' 60, checkedOutShop\<lparr>nostrService := bothWaiting\<rparr>)"
proof -
  have o: "getOrderByCartId (orderStore checkedOutShop) ''cart-1'' = Some checkedOutOrder"
    by (simp add: checkedOutShop_eq getOrderByCartId_def exampleShop_def)
  have c: "isConnected firstWaiting" "getConfirmedPayment firstWaiting ''cart-1'' = None"
    "getPendingPaymentByCartId firstWaiting ''cart-1'' = Some (pendingEntry\<lparr>pp_createdAt := 40\<rparr>)"
    by (simp_all add: isConnected_def getConfirmedPayment_def getPendingPaymentByCartId_def
        connectedService_def firstWaiting_def pendingEntry_def)
  have f: "o_status checkedOutOrder = AwaitingPayment"
    by (simp add: checkedOutOrder_def)
  have w: "waitForPayment firstWaiting 45 ''cart-1'' ''evt-1'' ''alice''
             ''customer-pubkey-hex'' 4999 (Some 60000) = (WaitPending 1, bothWaiting)"
    by (simp add: waitForPayment_def connectedService_def firstWaiting_def bothWaiting_def
        pendingEntry_def normalizeId_def exampleConfig_def Let_def)
  show ?thesis
    by (simp add: secondConfirm_def firstConfirm_eq confirmStart_def o c f
        effectiveWaitSeconds_def confirmWait_def exampleConfirmEnv_def)
       (simp add: pendingEntry_def w)
qed

lemma twoWaits_eq: "twoWaits = bothWaiting"
  by (simp add: twoWaits_def secondConfirm_eq)

lemma both_timers:
  "run bothWaiting [TimerFires 0, TimerFires 1] =
     connectedService\<lparr>
       pendingPayments := [],
       waiters := [\<lparr>w_eventId = ''evt-1'', w_timeout = 30000, w_timer = Fired,
                    w_promise = Some (Rejected (PaymentTimeout 30000 ''evt-1''))\<rparr>,
                   \<lparr>w_eventId = ''evt-1'', w_timeout = 60000, w_timer = Fired,
                    w_promise = None\<rparr>]\<rparr>"
  by (simp add: run_def bothWaiting_def connectedService_def timeoutFires_def rejectWaiter_def
      settle_def Let_def)

lemma paid_then_timer:
  "run bothWaiting
     [TransferArrives (exampleTransfer (Some ''evt-1'') (Some 4999) (Inr ''{}'')),
      TransferResumes 50 0, TimerFires 0] =
     connectedService\<lparr>
       pendingPayments := [],
       confirmedPayments := [(''cart-1'', confirmedEntry\<lparr>cp_confirmedAt := 50\<rparr>)],
       waiters := [\<lparr>w_eventId = ''evt-1'', w_timeout = 30000, w_timer = Fired,
                    w_promise = None\<rparr>,
                   \<lparr>w_eventId = ''evt-1'', w_timeout = 60000, w_timer = Cleared,
                    w_promise = Some (Resolved (confirmedEntry\<lparr>cp_confirmedAt := 50\<rparr>))\<rparr>]\<rparr>"
proof -
  let ?ev = "exampleTransfer (Some ''evt-1'') (Some 4999) (Inr ''{}'')"
  let ?p = "pendingEntry\<lparr>pp_createdAt := 45, pp_waiter := 1\<rparr>"
  have f: "findPending bothWaiting ?ev = Some ?p"
    by (simp add: findPending_def replyToEventId_def truthy_def bothWaiting_def
        connectedService_def exampleTransfer_def)
  have a: "transferArrives bothWaiting ?ev = bothWaiting\<lparr>inflight := [(?ev, ?p)]\<rparr>"
    by (simp add: transferArrives_def f)
       (simp add: exampleTransfer_def bothWaiting_def connectedService_def)
  have r: "transferResumes (bothWaiting\<lparr>inflight := [(?ev, ?p)]\<rparr>) 50 0 =
             transferFinish bothWaiting 50 ?ev ?p"
    by (simp add: transferResumes_def bothWaiting_def connectedService_def)
  have t: "transferFinish bothWaiting 50 ?ev ?p =
     connectedService\<lparr>
       pendingPayments := [],
       confirmedPayments := [(''cart-1'', confirmedEntry\<lparr>cp_confirmedAt := 50\<rparr>)],
       waiters := [\<lparr>w_eventId = ''evt-1'', w_timeout = 30000, w_timer = Armed,
                    w_promise = None\<rparr>,
                   \<lparr>w_eventId = ''evt-1'', w_timeout = 60000, w_timer = Cleared,
                    w_promise = Some (Resolved (confirmedEntry\<lparr>cp_confirmedAt := 50\<rparr>))\<rparr>]\<rparr>"
    by (simp add: transferFinish_def confirmTransfer_def resolveWaiter_def settle_def
        clearTimeout_def truthy_def Let_def exampleTransfer_def pendingEntry_def
        confirmedEntry_def bothWaiting_def connectedService_def)
  show ?thesis
    unfolding run_Cons run_Nil step.simps a r t
    by (simp add: connectedService_def timeoutFires_def Let_def)
qed

lemma shutdown_then_timer:
  "run bothWaiting [Shutdown, TimerFires 0] =
     (shutdown bothWaiting)\<lparr>
       waiters := [\<lparr>w_eventId = ''evt-1'', w_timeout = 30000, w_timer = Fired,
                    w_promise = None\<rparr>,
                   \<lparr>w_eventId = ''evt-1'', w_timeout = 60000, w_timer = Armed,
                    w_promise = Some (Rejected ShuttingDown)\<rparr>]\<rparr>"
  by (simp add: run_def shutdown_unfold bothWaiting_def connectedService_def
      unsubscribeTransfers_def truthy_def rejectAll_def rejectWaiter_def settle_def
      timeoutFires_def Let_def)

text \<open>
  Claim C1 says that every wait registered by \<open>waitForPayment\<close> gets exactly one outcome.
  The code does not keep this for two overlapping calls of \<open>confirm_payment\<close>. After a
  checkout of \<open>cart-1\<close>, a first call with a wait of 30 seconds registers wait 0 under the
  event id of the order; a second call, made while the first is waiting, finds that entry,
  takes the branch for a pending payment and registers wait 1 under the same event id, which
  overwrites the entry of wait 0.
  \<^item> If no payment comes, timer 0 finds the entry (of wait 1), removes it and rejects wait 0
    with the timeout; timer 1 finds nothing; wait 1 gets no outcome, whatever runs later.
  \<^item> If the payment comes, the handler resolves wait 1; timer 0 finds nothing; wait 0 gets
    no outcome, whatever runs later.
  In both runs one of the two calls of the tool never returns.
\<close>

theorem overlapping_confirm_calls_lose_a_wait:
  "fst firstConfirm = Waiting 0 checkedOutOrder ''evt-1'' 30
   \<and> fst secondConfirm = Waiting 1 checkedOutOrder ''evt-1'' 60
   \<and> promiseOf (run twoWaits [TimerFires 0, TimerFires 1]) 0
        = Some (Rejected (PaymentTimeout 30000 ''evt-1''))
   \<and> (\<forall>later. promiseOf (run twoWaits (TimerFires 0 # TimerFires 1 # later)) 1 = None)
   \<and> promiseOf (run twoWaits
        [TransferArrives (exampleTransfer (Some ''evt-1'') (Some 4999) (Inr ''{}'')),
         TransferResumes 50 0, TimerFires 0]) 1
        = Some (Resolved (confirmedEntry\<lparr>cp_confirmedAt := 50\<rparr>))
   \<and> (\<forall>later. promiseOf (run twoWaits
        (TransferArrives (exampleTransfer (Some ''evt-1'') (Some 4999) (Inr ''{}''))
           # TransferResumes 50 0 # TimerFires 0 # later)) 0 = None)"
proof -
  let ?ev = "exampleTransfer (Some ''evt-1'') (Some 4999) (Inr ''{}'')"
  have o1: "orphaned (run bothWaiting [TimerFires 0, TimerFires 1]) 1"
    unfolding both_timers by (simp add: orphaned_def connectedService_def)
  have o2: "orphaned (run bothWaiting [TransferArrives ?ev, TransferResumes 50 0, TimerFires 0]) 0"
    unfolding paid_then_timer by (simp add: orphaned_def connectedService_def)
  have n1: "promiseOf (run bothWaiting (TimerFires 0 # TimerFires 1 # later)) 1 = None" for later
    using orphaned_never_settles[OF o1, of later] by (simp add: run_append[symmetric])
  have n2: "promiseOf (run bothWaiting
              (TransferArrives ?ev # TransferResumes 50 0 # TimerFires 0 # later)) 0 = None"
    for later
    using orphaned_never_settles[OF o2, of later] by (simp add: run_append[symmetric])
  have p1: "promiseOf (run bothWaiting [TimerFires 0, TimerFires 1]) 0
              = Some (Rejected (PaymentTimeout 30000 ''evt-1''))"
    unfolding both_timers by (simp add: promiseOf_def)
  have p2: "promiseOf (run bothWaiting [TransferArrives ?ev, TransferResumes 50 0, TimerFires 0]) 1
              = Some (Resolved (confirmedEntry\<lparr>cp_confirmedAt := 50\<rparr>))"
    unfolding paid_then_timer by (simp add: promiseOf_def)
  show ?thesis
    unfolding twoWaits_eq using n1 n2 p1 p2 by (simp add: firstConfirm_eq secondConfirm_eq)
qed

text \<open>
  Claim C10 says that \<open>shutdown\<close> leaves no wait unresolved. The code does not keep this
  for a wait whose entry was overwritten. After the two overlapping calls of
  \<open>confirm_payment\<close> above, the service is initialized, both waits are unsettled and the index
  holds the one entry, that of wait 1. \<open>shutdown\<close> walks the index: it rejects wait 1 with the
  shutdown failure, empties the index, and never reaches wait 0. Timer 0 then finds nothing,
  and wait 0 gets no outcome, whatever runs later; without the \<open>shutdown\<close> that timer would
  have rejected it.
\<close>

theorem shutdown_misses_overwritten_wait:
  "isInitialized twoWaits
   \<and> map fst (pendingPayments twoWaits) = [''evt-1'']
   \<and> promiseOf twoWaits 0 = None \<and> promiseOf twoWaits 1 = None
   \<and> pendingPayments (shutdown twoWaits) = []
   \<and> promiseOf (shutdown twoWaits) 1 = Some (Rejected ShuttingDown)
   \<and> promiseOf (shutdown twoWaits) 0 = None
   \<and> (\<forall>later. promiseOf (run twoWaits (Shutdown # TimerFires 0 # later)) 0 = None)
   \<and> promiseOf (run twoWaits [TimerFires 0]) 0
        = Some (Rejected (PaymentTimeout 30000 ''evt-1''))"
proof -
  have s: "shutdown bothWaiting =
     bothWaiting\<lparr>client := False, identityService := False, config := None,
       isInitialized := False, transferSubscriptionId := None, pendingPayments := [],
       relayCalls := [Connect, Subscribe, Unsubscribe ''sub-123'', Disconnect],
       waiters := [\<lparr>w_eventId = ''evt-1'', w_timeout = 30000, w_timer = Armed,
                    w_promise = None\<rparr>,
                   \<lparr>w_eventId = ''evt-1'', w_timeout = 60000, w_timer = Armed,
                    w_promise = Some (Rejected ShuttingDown)\<rparr>]\<rparr>"
    by (simp add: shutdown_unfold bothWaiting_def connectedService_def
        unsubscribeTransfers_def truthy_def rejectAll_def rejectWaiter_def settle_def)
  have o: "orphaned (run bothWaiting [Shutdown, TimerFires 0]) 0"
    unfolding shutdown_then_timer s
    by (simp add: orphaned_def bothWaiting_def connectedService_def)
  have n: "promiseOf (run bothWaiting (Shutdown # TimerFires 0 # later)) 0 = None" for later
    using orphaned_never_settles[OF o, of later] by (simp add: run_append[symmetric])
  have t: "promiseOf (run bothWaiting [TimerFires 0]) 0
             = Some (Rejected (PaymentTimeout 30000 ''evt-1''))"
    by (simp add: run_def bothWaiting_def connectedService_def timeoutFires_def rejectWaiter_def
        settle_def promiseOf_def Let_def)
  have b: "isInitialized bothWaiting" "map fst (pendingPayments bothWaiting) = [''evt-1'']"
    "promiseOf bothWaiting 0 = None" "promiseOf bothWaiting 1 = None"
    by (simp_all add: bothWaiting_def connectedService_def promiseOf_def)
  have a: "pendingPayments (shutdown bothWaiting) = []"
    "promiseOf (shutdown bothWaiting) 1 = Some (Rejected ShuttingDown)"
    "promiseOf (shutdown bothWaiting) 0 = None"
    unfolding s by (simp_all add: promiseOf_def)
  show ?thesis
    unfolding twoWaits_eq using n t b a by simp
qed

end
